theory Spec2Isabelle
  imports Complex_Main
begin

section \<open>Data model\<close>

text \<open>
  The two scripts \<^verbatim>\<open>n-points-line-random.py\<close> (constructive variant) and
  \<^verbatim>\<open>n-points-trials.py\<close> (force relaxation) work on lists of 4-tuples
  \<^verbatim>\<open>(x, y, focus_x, focus_y)\<close>. Python numbers are modelled as exact reals; a
  division by zero raises \<^verbatim>\<open>ZeroDivisionError\<close> in Python (for floats as well), so
  every function that divides returns a sum type with the error on the left.
\<close>

datatype py_error = ZeroDivisionError | ValueError | IndexError

record point =
  pos_x :: real
  pos_y :: real
  focus_x :: real
  focus_y :: real

section \<open>Geometry utilities\<close>

text \<open>
  \<^verbatim>\<open>linex = (-b + y + x/m)/(m + 1/m); liney = m * linex + b\<close>,
  \<^verbatim>\<open>distance = math.sqrt((x - linex)**2 + (y - liney)**2)\<close>.
  Both \<^verbatim>\<open>x/m\<close> and \<^verbatim>\<open>1/m\<close> raise when \<open>m = 0\<close>; the outer division raises when
  \<open>m + 1/m = 0\<close>.
\<close>

definition closest_distance_to_line :: "real \<Rightarrow> real \<Rightarrow> real \<Rightarrow> real \<Rightarrow> py_error + real" where
  "closest_distance_to_line m b x y =
     (if m = 0 then Inl ZeroDivisionError
      else if m + 1 / m = 0 then Inl ZeroDivisionError
      else
        let linex = (- b + y + x / m) / (m + 1 / m);
            liney = m * linex + b
        in Inr (sqrt ((x - linex)\<^sup>2 + (y - liney)\<^sup>2)))"

text \<open>
  \<^verbatim>\<open>self_intersect\<close>: the loop over \<open>i\<close> and \<open>j > i\<close> that returns \<open>True\<close> at the first pair
  with \<^verbatim>\<open>(p1[0]-p2[0])**2 + (p1[1]-p2[1])**2 < 4*radius**2\<close>. The outer loop is the
  recursion on the list, the inner loop the recursion on its tail.
\<close>

fun overlap_with :: "point \<Rightarrow> point list \<Rightarrow> real \<Rightarrow> bool" where
  "overlap_with p1 [] radius = False"
| "overlap_with p1 (p2 # ps) radius =
     (if (pos_x p1 - pos_x p2)\<^sup>2 + (pos_y p1 - pos_y p2)\<^sup>2 < 4 * radius\<^sup>2 then True
      else overlap_with p1 ps radius)"

fun self_intersect :: "point list \<Rightarrow> real \<Rightarrow> bool" where
  "self_intersect [] radius = False"
| "self_intersect (p1 # ps) radius =
     (if overlap_with p1 ps radius then True else self_intersect ps radius)"

text \<open>\<^verbatim>\<open>intersect_origin\<close> (relaxation script): some point has \<open>x\<^sup>2 + y\<^sup>2 < radius\<^sup>2\<close>.\<close>

fun intersect_origin :: "point list \<Rightarrow> real \<Rightarrow> bool" where
  "intersect_origin [] radius = False"
| "intersect_origin (p # ps) radius =
     (if (pos_x p)\<^sup>2 + (pos_y p)\<^sup>2 < radius\<^sup>2 then True else intersect_origin ps radius)"

text \<open>\<^verbatim>\<open>intersect_origin_line\<close> (constructive script): some point has \<open>y < radius\<close>.\<close>

fun intersect_origin_line :: "point list \<Rightarrow> real \<Rightarrow> bool" where
  "intersect_origin_line [] radius = False"
| "intersect_origin_line (p # ps) radius =
     (if pos_y p < radius then True else intersect_origin_line ps radius)"

text \<open>
  The first loop of both validators sets the flag \<^verbatim>\<open>degenerate\<close> when two points at
  indices \<open>i < j\<close> have the same centre; the flag is passed through the loops as the code
  does.
\<close>

fun coincide_with :: "point \<Rightarrow> point list \<Rightarrow> bool \<Rightarrow> bool" where
  "coincide_with p1 [] flag = flag"
| "coincide_with p1 (p2 # ps) flag =
     coincide_with p1 ps (if pos_x p1 = pos_x p2 \<and> pos_y p1 = pos_y p2 then True else flag)"

fun degenerate_loop :: "point list \<Rightarrow> bool \<Rightarrow> bool" where
  "degenerate_loop [] flag = flag"
| "degenerate_loop (p1 # ps) flag = degenerate_loop ps (coincide_with p1 ps flag)"

text \<open>The centre of a point, the pair \<^verbatim>\<open>(p[0], p[1])\<close>.\<close>

definition centre_of :: "point \<Rightarrow> real \<times> real" where
  "centre_of p = (pos_x p, pos_y p)"

text \<open>The focus of a point, the pair \<^verbatim>\<open>(p[2], p[3])\<close>.\<close>

definition focus_of :: "point \<Rightarrow> real \<times> real" where
  "focus_of p = (focus_x p, focus_y p)"

text \<open>The Euclidean distance from a point to its focus, as computed in \<^verbatim>\<open>sum_forces\<close>.\<close>

definition focus_distance :: "point \<Rightarrow> real" where
  "focus_distance p = sqrt ((pos_x p - focus_x p)\<^sup>2 + (pos_y p - focus_y p)\<^sup>2)"

section \<open>Visibility oracle\<close>

text \<open>
  \<^verbatim>\<open>is_blocked(p1, points, radius)\<close>: the slope
  \<^verbatim>\<open>m = (p1[1] - p1[3] + 0.01)/(p1[0] - p1[2] + 0.01)\<close> raises when its denominator is
  zero. The loop skips \<open>p2 = p1\<close> (tuple equality) and every point that is behind; the
  two scripts differ only in the test for behind, which is the parameter \<open>behind\<close>.
\<close>

fun blocked_loop ::
  "(point \<Rightarrow> point \<Rightarrow> bool) \<Rightarrow> real \<Rightarrow> real \<Rightarrow> point \<Rightarrow> point list \<Rightarrow> real \<Rightarrow> py_error + bool" where
  "blocked_loop behind m b p1 [] radius = Inr False"
| "blocked_loop behind m b p1 (p2 # ps) radius =
     (if p2 = p1 then blocked_loop behind m b p1 ps radius
      else if behind p1 p2 then blocked_loop behind m b p1 ps radius
      else (case closest_distance_to_line m b (pos_x p2) (pos_y p2) of
              Inl e \<Rightarrow> Inl e
            | Inr d \<Rightarrow> if d < radius then Inr True else blocked_loop behind m b p1 ps radius))"

definition is_blocked_with ::
  "(point \<Rightarrow> point \<Rightarrow> bool) \<Rightarrow> point \<Rightarrow> point list \<Rightarrow> real \<Rightarrow> py_error + bool" where
  "is_blocked_with behind p1 points radius =
     (if pos_x p1 - focus_x p1 + 0.01 = 0 then Inl ZeroDivisionError
      else
        let m = (pos_y p1 - focus_y p1 + 0.01) / (pos_x p1 - focus_x p1 + 0.01);
            b = pos_y p1 - m * pos_x p1
        in blocked_loop behind m b p1 points radius)"

text \<open>
  Relaxation script: \<^verbatim>\<open>(p1[1]**2 + p1[0]**2) < (p2[0]**2 + p2[1]**2) or
  (p1[0]*p2[0]<0 and p1[1]*p2[1]<0)\<close>.
\<close>

definition behind_radial :: "point \<Rightarrow> point \<Rightarrow> bool" where
  "behind_radial p1 p2 \<longleftrightarrow>
     (pos_y p1)\<^sup>2 + (pos_x p1)\<^sup>2 < (pos_x p2)\<^sup>2 + (pos_y p2)\<^sup>2
     \<or> (pos_x p1 * pos_x p2 < 0 \<and> pos_y p1 * pos_y p2 < 0)"

text \<open>Constructive script: \<^verbatim>\<open>p1[1] < p2[1]\<close>.\<close>

definition behind_line :: "point \<Rightarrow> point \<Rightarrow> bool" where
  "behind_line p1 p2 \<longleftrightarrow> pos_y p1 < pos_y p2"

definition is_blocked :: "point \<Rightarrow> point list \<Rightarrow> real \<Rightarrow> py_error + bool" where
  "is_blocked = is_blocked_with behind_radial"

definition is_blocked_line :: "point \<Rightarrow> point list \<Rightarrow> real \<Rightarrow> py_error + bool" where
  "is_blocked_line = is_blocked_with behind_line"

section \<open>Constraint validators\<close>

text \<open>\<^verbatim>\<open>in_violation\<close> of the constructive script; \<open>arena_size\<close> is not used by the code.\<close>

definition in_violation :: "point list \<Rightarrow> real \<Rightarrow> int \<Rightarrow> bool" where
  "in_violation points radius arena_size =
     (if degenerate_loop points False then True
      else if self_intersect points radius then True
      else if intersect_origin_line points radius then True
      else False)"

text \<open>
  \<^verbatim>\<open>in_violation_full\<close> of the relaxation script: the same three stages with the
  origin disk as boundary, then \<^verbatim>\<open>for p in points: if is_blocked(p, points, radius):
  return True\<close>.
\<close>

fun blocked_any :: "point list \<Rightarrow> point list \<Rightarrow> real \<Rightarrow> py_error + bool" where
  "blocked_any [] points radius = Inr False"
| "blocked_any (p # ps) points radius =
     (case is_blocked p points radius of
        Inl e \<Rightarrow> Inl e
      | Inr blocked \<Rightarrow> if blocked then Inr True else blocked_any ps points radius)"

definition in_violation_full :: "point list \<Rightarrow> real \<Rightarrow> int \<Rightarrow> py_error + bool" where
  "in_violation_full points radius arena_size =
     (if degenerate_loop points False then Inr True
      else if self_intersect points radius then Inr True
      else if intersect_origin points radius then Inr True
      else blocked_any points points radius)"

section \<open>Layout generators\<close>

text \<open>
  \<^verbatim>\<open>angled_init(num_points, arena_size, radius)\<close> of the constructive script. The
  random source is injected: \<open>x_draw\<close> is the value returned by
  \<^verbatim>\<open>random.randint(2 * radius, num_per_stack * radius)\<close> and \<open>rnd i\<close> the value of the
  \<open>i\<close>-th call of \<^verbatim>\<open>random.random()\<close>. Python's \<^verbatim>\<open>//\<close> on integers is \<open>div\<close>; it
  raises on a zero divisor, and \<^verbatim>\<open>randint\<close> raises \<^verbatim>\<open>ValueError\<close> on an empty range.
\<close>

definition angled_num_stacks :: "int \<Rightarrow> int \<Rightarrow> int" where
  "angled_num_stacks arena_size radius = (arena_size - 3 * radius) div radius"

definition angled_num_per_stack :: "int \<Rightarrow> int \<Rightarrow> int" where
  "angled_num_per_stack num_points num_stacks = num_points div num_stacks"

text \<open>The inner loop \<^verbatim>\<open>for n in range(num_stacks)\<close>: one row of points.\<close>

definition stack_row :: "int \<Rightarrow> int \<Rightarrow> int \<Rightarrow> int \<Rightarrow> real \<Rightarrow> real \<Rightarrow> point list" where
  "stack_row num_stacks x_per_stack arena_size radius curr_x curr_y =
     map (\<lambda>n. let x_shift = - arena_size + radius + int n * x_per_stack
               in \<lparr>pos_x = curr_x + real_of_int x_shift, pos_y = curr_y,
                    focus_x = real_of_int (x_shift + x_per_stack - radius + 5), focus_y = 0\<rparr>)
       [0..<nat num_stacks]"

text \<open>
  The outer loop \<^verbatim>\<open>for i in range(num_per_stack)\<close> with its state
  \<^verbatim>\<open>angle, curr_x, curr_y\<close>; the first argument after \<open>radius\<close> counts the rows left.
\<close>

fun angled_rows ::
  "(nat \<Rightarrow> real) \<Rightarrow> int \<Rightarrow> int \<Rightarrow> int \<Rightarrow> int \<Rightarrow> nat \<Rightarrow> nat \<Rightarrow> real \<Rightarrow> real \<Rightarrow> real \<Rightarrow> point list" where
  "angled_rows rnd num_stacks x_per_stack arena_size radius 0 i angle curr_x curr_y = []"
| "angled_rows rnd num_stacks x_per_stack arena_size radius (Suc rows) i angle curr_x curr_y =
     stack_row num_stacks x_per_stack arena_size radius curr_x curr_y @
     (let angle' = angle + rnd i * (3.14159 / 2 - angle)
      in angled_rows rnd num_stacks x_per_stack arena_size radius rows (Suc i) angle'
           (curr_x + 2 * real_of_int radius * sin angle')
           (curr_y + 2 * real_of_int radius * cos angle'))"

definition angled_init :: "int \<Rightarrow> (nat \<Rightarrow> real) \<Rightarrow> int \<Rightarrow> int \<Rightarrow> int \<Rightarrow> py_error + point list" where
  "angled_init x_draw rnd num_points arena_size radius =
     (if radius = 0 then Inl ZeroDivisionError
      else
        let num_stacks = angled_num_stacks arena_size radius
        in if num_stacks = 0 then Inl ZeroDivisionError
           else
             let num_per_stack = angled_num_per_stack num_points num_stacks
             in if num_per_stack * radius < 2 * radius then Inl ValueError
                else
                  let x_per_stack = x_draw
                  in Inr (angled_rows rnd num_stacks x_per_stack arena_size radius
                            (nat num_per_stack) 0 0 0 (real_of_int radius)))"

text \<open>The values that \<^verbatim>\<open>curr_y\<close> takes, row by row.\<close>

fun row_heights :: "(nat \<Rightarrow> real) \<Rightarrow> int \<Rightarrow> nat \<Rightarrow> nat \<Rightarrow> real \<Rightarrow> real \<Rightarrow> real list" where
  "row_heights rnd radius 0 i angle curr_y = []"
| "row_heights rnd radius (Suc rows) i angle curr_y =
     curr_y #
     (let angle' = angle + rnd i * (3.14159 / 2 - angle)
      in row_heights rnd radius rows (Suc i) angle' (curr_y + 2 * real_of_int radius * cos angle'))"

section \<open>Focus assignment search\<close>

text \<open>
  \<^verbatim>\<open>assign_foci(points, radius, arena_size, max_x, min_x)\<close> of the constructive
  script. The innermost loop runs over \<^verbatim>\<open>side in [1, -1]\<close>: a candidate focus outside
  \<open>[min_x, max_x]\<close> is skipped; otherwise the candidate is written into
  \<^verbatim>\<open>new_points[i]\<close> before it is tested, and stays there when it is blocked. Each loop
  returns the flag \<^verbatim>\<open>can_adjust\<close> and the list \<^verbatim>\<open>new_points\<close>.
\<close>

fun side_loop ::
  "nat \<Rightarrow> int \<Rightarrow> int list \<Rightarrow> point list \<Rightarrow> real \<Rightarrow> real \<Rightarrow> real
     \<Rightarrow> py_error + bool \<times> point list" where
  "side_loop i d [] new_points radius max_x min_x = Inr (False, new_points)"
| "side_loop i d (side # sides) new_points radius max_x min_x =
     (let x = pos_x (new_points ! i) + real_of_int (side * d)
      in if x > max_x \<or> x < min_x then side_loop i d sides new_points radius max_x min_x
         else
           let new_p = \<lparr>pos_x = pos_x (new_points ! i), pos_y = pos_y (new_points ! i),
                        focus_x = x, focus_y = 0\<rparr>;
               written = new_points[i := new_p]
           in (case is_blocked_line new_p written radius of
                 Inl e \<Rightarrow> Inl e
               | Inr blocked \<Rightarrow>
                   if \<not> blocked then Inr (True, written)
                   else side_loop i d sides written radius max_x min_x))"

text \<open>\<^verbatim>\<open>for d in range(arena_size)\<close>, left as soon as a side was accepted.\<close>

fun scan_loop ::
  "nat \<Rightarrow> int list \<Rightarrow> point list \<Rightarrow> real \<Rightarrow> real \<Rightarrow> real \<Rightarrow> py_error + bool \<times> point list" where
  "scan_loop i [] new_points radius max_x min_x = Inr (False, new_points)"
| "scan_loop i (d # ds) new_points radius max_x min_x =
     (case side_loop i d [1, - 1] new_points radius max_x min_x of
        Inl e \<Rightarrow> Inl e
      | Inr res \<Rightarrow>
          if fst res then Inr res else scan_loop i ds (snd res) radius max_x min_x)"

text \<open>
  \<^verbatim>\<open>for i,p in enumerate(points)\<close>: when the scan of a point ends with
  \<^verbatim>\<open>can_adjust\<close> false the function leaves with \<^verbatim>\<open>return False, points\<close>; after the
  last point it returns \<^verbatim>\<open>can_adjust, new_points\<close>.
\<close>

fun assign_loop ::
  "point list \<Rightarrow> real \<Rightarrow> int \<Rightarrow> real \<Rightarrow> real \<Rightarrow> (nat \<times> point) list \<Rightarrow> bool \<Rightarrow> point list
     \<Rightarrow> py_error + bool \<times> point list" where
  "assign_loop points radius arena_size max_x min_x [] can_adjust new_points =
     Inr (can_adjust, new_points)"
| "assign_loop points radius arena_size max_x min_x (ip # rest) can_adjust new_points =
     (case scan_loop (fst ip) [0..arena_size - 1] new_points radius max_x min_x of
        Inl e \<Rightarrow> Inl e
      | Inr res \<Rightarrow>
          if \<not> fst res then Inr (False, points)
          else assign_loop points radius arena_size max_x min_x rest (fst res) (snd res))"

definition assign_foci ::
  "point list \<Rightarrow> real \<Rightarrow> int \<Rightarrow> real \<Rightarrow> real \<Rightarrow> py_error + bool \<times> point list" where
  "assign_foci points radius arena_size max_x min_x =
     assign_loop points radius arena_size max_x min_x (enumerate 0 points) True points"

section \<open>Force relaxation engine\<close>

text \<open>
  \<^verbatim>\<open>sum_forces(i, points, repulse, repulse_d, radius)\<close>. The attractive force divides by
  \<^verbatim>\<open>distance_to_focus\<close>, which raises when the point sits on its focus. The loop over
  \<^verbatim>\<open>enumerate(points)\<close> carries the index \<open>j\<close> and the accumulator \<^verbatim>\<open>r_force\<close>.
\<close>

fun repulse_loop ::
  "point \<Rightarrow> nat \<Rightarrow> nat \<Rightarrow> point list \<Rightarrow> real \<Rightarrow> real \<Rightarrow> real \<Rightarrow> real \<times> real
     \<Rightarrow> py_error + real \<times> real" where
  "repulse_loop p_i i j [] repulse repulse_d radius r_force = Inr r_force"
| "repulse_loop p_i i j (p # ps) repulse repulse_d radius r_force =
     (if i = j then repulse_loop p_i i (Suc j) ps repulse repulse_d radius r_force
      else
        let distance = sqrt ((pos_x p_i - pos_x p)\<^sup>2 + (pos_y p_i - pos_y p)\<^sup>2)
        in if \<bar>distance\<bar> < repulse_d * \<bar>radius\<bar>
           then (if radius = 0 then Inl ZeroDivisionError
                 else repulse_loop p_i i (Suc j) ps repulse repulse_d radius
                        (fst r_force + repulse * (pos_x p_i - pos_x p) / radius,
                         snd r_force + repulse * (pos_y p_i - pos_y p) / radius))
           else repulse_loop p_i i (Suc j) ps repulse repulse_d radius r_force)"

definition sum_forces ::
  "nat \<Rightarrow> point list \<Rightarrow> real \<Rightarrow> real \<Rightarrow> real \<Rightarrow> py_error + real \<times> real" where
  "sum_forces i points repulse repulse_d radius =
     (if length points \<le> i then Inl IndexError
      else
        let p_i = points ! i;
            distance_to_focus =
              sqrt ((pos_x p_i - focus_x p_i)\<^sup>2 + (pos_y p_i - focus_y p_i)\<^sup>2)
        in if distance_to_focus = 0 then Inl ZeroDivisionError
           else
             let central_force = ((focus_x p_i - pos_x p_i) / distance_to_focus,
                                  (focus_y p_i - pos_y p_i) / distance_to_focus)
             in (case repulse_loop p_i i 0 points repulse repulse_d radius (0, 0) of
                   Inl e \<Rightarrow> Inl e
                 | Inr r_force \<Rightarrow>
                     Inr (fst central_force + fst r_force, snd central_force + snd r_force)))"

text \<open>
  The tentative new position of point \<open>i\<close> (the first lines of the loop body in
  \<^verbatim>\<open>dynamics\<close>): \<^verbatim>\<open>norm = math.sqrt(f_x**2 + f_y**2)\<close>,
  \<^verbatim>\<open>p_delta_x = magnitude * f_x / norm\<close>, and the new tuple keeps \<^verbatim>\<open>p[2], p[3]\<close>.
\<close>

definition move_point ::
  "nat \<Rightarrow> point \<Rightarrow> point list \<Rightarrow> real \<Rightarrow> real \<Rightarrow> real \<Rightarrow> real \<Rightarrow> py_error + point" where
  "move_point i p points magnitude repulse repulse_d radius =
     (case sum_forces i points repulse repulse_d radius of
        Inl e \<Rightarrow> Inl e
      | Inr f \<Rightarrow>
          let f_x = fst f; f_y = snd f; norm_f = sqrt (f_x\<^sup>2 + f_y\<^sup>2)
          in if norm_f = 0 then Inl ZeroDivisionError
             else Inr \<lparr>pos_x = pos_x p + magnitude * f_x / norm_f,
                       pos_y = pos_y p + magnitude * f_y / norm_f,
                       focus_x = focus_x p, focus_y = focus_y p\<rparr>)"

text \<open>
  One pass of \<^verbatim>\<open>for i,p in enumerate(points)\<close>: forces are computed on the old
  \<^verbatim>\<open>points\<close>, the move is written into \<^verbatim>\<open>new_points[i]\<close>, the whole of
  \<^verbatim>\<open>new_points\<close> is validated, and on a violation \<^verbatim>\<open>new_points[i] = p\<close> undoes this
  one move. The flag \<^verbatim>\<open>no_change\<close> is written but never read, so it is left out.
\<close>

fun move_loop ::
  "point list \<Rightarrow> real \<Rightarrow> real \<Rightarrow> real \<Rightarrow> real \<Rightarrow> int \<Rightarrow> (nat \<times> point) list \<Rightarrow> point list
     \<Rightarrow> py_error + point list" where
  "move_loop points magnitude repulse repulse_d radius arena_size [] new_points = Inr new_points"
| "move_loop points magnitude repulse repulse_d radius arena_size (ip # rest) new_points =
     (case move_point (fst ip) (snd ip) points magnitude repulse repulse_d radius of
        Inl e \<Rightarrow> Inl e
      | Inr moved \<Rightarrow>
          (case in_violation_full (new_points[fst ip := moved]) radius arena_size of
             Inl e \<Rightarrow> Inl e
           | Inr violation \<Rightarrow>
               if violation
               then move_loop points magnitude repulse repulse_d radius arena_size rest
                      ((new_points[fst ip := moved])[fst ip := snd ip])
               else move_loop points magnitude repulse repulse_d radius arena_size rest
                      (new_points[fst ip := moved])))"

definition relax_step ::
  "point list \<Rightarrow> real \<Rightarrow> real \<Rightarrow> real \<Rightarrow> real \<Rightarrow> int \<Rightarrow> py_error + point list" where
  "relax_step points magnitude repulse repulse_d radius arena_size =
     move_loop points magnitude repulse repulse_d radius arena_size (enumerate 0 points) points"

text \<open>
  The update as the specification describes it (section 4.6, rollback policy): all
  points are moved at once, each by its own force on the old configuration, and the
  result is validated as a whole. The code has no such configuration; this definition
  exists to state that description.
\<close>

fun spec_tentative_moves ::
  "point list \<Rightarrow> real \<Rightarrow> real \<Rightarrow> real \<Rightarrow> real \<Rightarrow> (nat \<times> point) list \<Rightarrow> py_error + point list" where
  "spec_tentative_moves points magnitude repulse repulse_d radius [] = Inr []"
| "spec_tentative_moves points magnitude repulse repulse_d radius (ip # rest) =
     (case move_point (fst ip) (snd ip) points magnitude repulse repulse_d radius of
        Inl e \<Rightarrow> Inl e
      | Inr moved \<Rightarrow>
          (case spec_tentative_moves points magnitude repulse repulse_d radius rest of
             Inl e \<Rightarrow> Inl e
           | Inr others \<Rightarrow> Inr (moved # others)))"

definition spec_synchronous_update ::
  "point list \<Rightarrow> real \<Rightarrow> real \<Rightarrow> real \<Rightarrow> real \<Rightarrow> py_error + point list" where
  "spec_synchronous_update points magnitude repulse repulse_d radius =
     spec_tentative_moves points magnitude repulse repulse_d radius (enumerate 0 points)"

text \<open>
  The annealing lines at the head of each step:
  \<^verbatim>\<open>magnitude = max(1, radius - 10 * (step/100))\<close>,
  \<^verbatim>\<open>repulse_d = max(0, repulse_d - 0.1*step//1000)\<close>,
  \<^verbatim>\<open>repulse = max(0, repulse - 0.5 * step//1000)\<close>.
  In Python \<^verbatim>\<open>*\<close> and \<^verbatim>\<open>//\<close> have the same precedence and associate to the left, so
  the subtrahend is the floor of \<open>(0.1 * step) / 1000\<close>; both variables are overwritten
  at every step.
\<close>

definition step_magnitude :: "real \<Rightarrow> nat \<Rightarrow> real" where
  "step_magnitude radius step = max 1 (radius - 10 * (real step / 100))"

definition anneal_repulse_d :: "real \<Rightarrow> nat \<Rightarrow> real" where
  "anneal_repulse_d repulse_d step =
     max 0 (repulse_d - real_of_int \<lfloor>0.1 * real step / 1000\<rfloor>)"

definition anneal_repulse :: "real \<Rightarrow> nat \<Rightarrow> real" where
  "anneal_repulse repulse step =
     max 0 (repulse - real_of_int \<lfloor>0.5 * real step / 1000\<rfloor>)"

text \<open>
  The two annealed parameters \<open>(repulse_d, repulse)\<close> carried through the step loop.
\<close>

fun anneal_over :: "nat list \<Rightarrow> real \<times> real \<Rightarrow> real \<times> real" where
  "anneal_over [] rr = rr"
| "anneal_over (step # steps) rr =
     anneal_over steps (anneal_repulse_d (fst rr) step, anneal_repulse (snd rr) step)"

text \<open>
  The schedule as the specification words it (section 4.6, item 3): a decay of 0.1,
  respectively 0.5, from the initial value per 1000 steps, floored at 0.
\<close>

definition spec_repulse_d :: "real \<Rightarrow> nat \<Rightarrow> real" where
  "spec_repulse_d repulse_d0 step = max 0 (repulse_d0 - 0.1 * real (step div 1000))"

definition spec_repulse :: "real \<Rightarrow> nat \<Rightarrow> real" where
  "spec_repulse repulse0 step = max 0 (repulse0 - 0.5 * real (step div 1000))"

text \<open>
  The quality metric of the relaxation script:
  \<^verbatim>\<open>[radius * radius * ((x[0]-x[2])**2 + (x[1]-x[3])**2)**(-1) for x in points]\<close> and
  its \<^verbatim>\<open>sum\<close>. A zero base raised to \<open>-1\<close> raises \<^verbatim>\<open>ZeroDivisionError\<close>.
\<close>

fun inv_sq_distances :: "real \<Rightarrow> point list \<Rightarrow> py_error + real list" where
  "inv_sq_distances radius [] = Inr []"
| "inv_sq_distances radius (x # xs) =
     (if (pos_x x - focus_x x)\<^sup>2 + (pos_y x - focus_y x)\<^sup>2 = 0 then Inl ZeroDivisionError
      else (case inv_sq_distances radius xs of
              Inl e \<Rightarrow> Inl e
            | Inr rest \<Rightarrow>
                Inr (radius * radius
                       * (1 / ((pos_x x - focus_x x)\<^sup>2 + (pos_y x - focus_y x)\<^sup>2)) # rest)))"

definition power_of :: "real \<Rightarrow> point list \<Rightarrow> py_error + real" where
  "power_of radius points =
     (case inv_sq_distances radius points of Inl e \<Rightarrow> Inl e | Inr ds \<Rightarrow> Inr (sum_list ds))"


text \<open>
  The state of one trial of \<^verbatim>\<open>dynamics\<close> and the body of
  \<^verbatim>\<open>for step in range(num_steps)\<close>. The plot scale \<^verbatim>\<open>max_arena\<close> belongs to the
  rendering and is not part of the state.
\<close>

record relax_state =
  st_points :: "point list"
  st_repulse :: real
  st_repulse_d :: real
  st_best_power :: real
  st_best_points :: "point list"

definition trial_step :: "real \<Rightarrow> int \<Rightarrow> nat \<Rightarrow> relax_state \<Rightarrow> py_error + relax_state" where
  "trial_step radius arena_size step st =
     (let magnitude = step_magnitude radius step;
          repulse_d = anneal_repulse_d (st_repulse_d st) step;
          repulse = anneal_repulse (st_repulse st) step
      in case relax_step (st_points st) magnitude repulse repulse_d radius arena_size of
           Inl e \<Rightarrow> Inl e
         | Inr new_points \<Rightarrow>
             (case power_of radius new_points of
                Inl e \<Rightarrow> Inl e
              | Inr power_val \<Rightarrow>
                  if power_val > st_best_power st
                  then Inr \<lparr>st_points = new_points, st_repulse = repulse,
                            st_repulse_d = repulse_d, st_best_power = power_val,
                            st_best_points = new_points\<rparr>
                  else Inr \<lparr>st_points = new_points, st_repulse = repulse,
                            st_repulse_d = repulse_d, st_best_power = st_best_power st,
                            st_best_points = st_best_points st\<rparr>))"

fun run_steps :: "real \<Rightarrow> int \<Rightarrow> nat list \<Rightarrow> relax_state \<Rightarrow> py_error + relax_state" where
  "run_steps radius arena_size [] st = Inr st"
| "run_steps radius arena_size (step # steps) st =
     (case trial_step radius arena_size step st of
        Inl e \<Rightarrow> Inl e
      | Inr st' \<Rightarrow> run_steps radius arena_size steps st')"

text \<open>
  \<^verbatim>\<open>random_init_uniform\<close>: the random source is the function \<open>rnd\<close>, whose value at
  \<open>k\<close> is the result of the \<open>k\<close>-th call of \<^verbatim>\<open>random.randint(-arena_size, arena_size)\<close>;
  that call raises \<^verbatim>\<open>ValueError\<close> on an empty range.
\<close>

definition random_init_uniform ::
  "(nat \<Rightarrow> int) \<Rightarrow> nat \<Rightarrow> int \<Rightarrow> real \<Rightarrow> py_error + point list" where
  "random_init_uniform rnd num_points arena_size radius =
     (if 0 < num_points \<and> arena_size < - arena_size then Inl ValueError
      else Inr (map (\<lambda>j. \<lparr>pos_x = real_of_int (rnd (2 * j)),
                            pos_y = real_of_int (rnd (2 * j + 1)),
                            focus_x = 0, focus_y = 0\<rparr>) [0..<num_points]))"

text \<open>
  The trial of \<^verbatim>\<open>dynamics\<close> after the search for a starting position: the parameters
  restart from their original values and \<^verbatim>\<open>best_power = 0, best_points = []\<close>.
\<close>

definition trial_init :: "point list \<Rightarrow> real \<Rightarrow> real \<Rightarrow> relax_state" where
  "trial_init points repulse repulse_d =
     \<lparr>st_points = points, st_repulse = repulse, st_repulse_d = repulse_d,
      st_best_power = 0, st_best_points = []\<rparr>"

section \<open>Concrete configurations\<close>

text \<open>
  Two points in diagonally opposite quadrants, as \<^verbatim>\<open>random_init_uniform\<close> can draw them
  for \<^verbatim>\<open>num_points = 2\<close> (\<^verbatim>\<open>radius = 200\<close>, \<^verbatim>\<open>arena_size = 800\<close>): the second one
  touches the origin disk from outside.
\<close>

definition example_randint :: "nat \<Rightarrow> int" where
  "example_randint k = [600, 800, - 120, - 160] ! k"

definition far_point :: point where
  "far_point = \<lparr>pos_x = 600, pos_y = 800, focus_x = 0, focus_y = 0\<rparr>"

definition rim_point :: point where
  "rim_point = \<lparr>pos_x = - 120, pos_y = - 160, focus_x = 0, focus_y = 0\<rparr>"

definition far_point_moved :: point where
  "far_point_moved = \<lparr>pos_x = 480, pos_y = 640, focus_x = 0, focus_y = 0\<rparr>"

definition origin_point :: point where
  "origin_point = \<lparr>pos_x = 0, pos_y = 0, focus_x = 0, focus_y = 0\<rparr>"

text \<open>
  The mirror image of the rim point: with \<^verbatim>\<open>repulse = 0.5\<close> the two rim points form a
  valid configuration in which attraction and repulsion cancel.
\<close>

definition rim_point_opposite :: point where
  "rim_point_opposite = \<lparr>pos_x = 120, pos_y = 160, focus_x = 0, focus_y = 0\<rparr>"

text \<open>
  Two points on the diagonal with the origin as focus: the nearer one sits on the line
  of sight of the farther one. In the second configuration the same centres have the
  farther point look along the line \<open>y = - x + 2000\<close> instead.
\<close>

definition diagonal_far :: point where
  "diagonal_far = \<lparr>pos_x = 1000, pos_y = 1000, focus_x = 0, focus_y = 0\<rparr>"

definition diagonal_near :: point where
  "diagonal_near = \<lparr>pos_x = 500, pos_y = 500, focus_x = 0, focus_y = 0\<rparr>"

definition diagonal_far_turned :: point where
  "diagonal_far_turned = \<lparr>pos_x = 1000, pos_y = 1000, focus_x = 0, focus_y = 2000.02\<rparr>"

text \<open>
  An input of \<^verbatim>\<open>assign_foci\<close> (\<^verbatim>\<open>radius = 100\<close>, \<^verbatim>\<open>arena_size = 1\<close>,
  \<^verbatim>\<open>max_x = min_x = 0\<close>): the first point can look straight down, the second point
  lies outside the allowed range of foci.
\<close>

definition lane_first :: point where
  "lane_first = \<lparr>pos_x = 0, pos_y = 100, focus_x = 7, focus_y = 0\<rparr>"

definition lane_first_assigned :: point where
  "lane_first_assigned = \<lparr>pos_x = 0, pos_y = 100, focus_x = 0, focus_y = 0\<rparr>"

definition lane_second :: point where
  "lane_second = \<lparr>pos_x = 5, pos_y = 300, focus_x = 12, focus_y = 0\<rparr>"

text \<open>
  A trial with a single point (\<^verbatim>\<open>num_points = 1\<close>, hence \<^verbatim>\<open>arena_size = 400\<close>): the
  point starts on the positive x-axis. Such a point stays on the axis, outside the
  origin disk, for the whole trial.
\<close>

definition lone_point :: point where
  "lone_point = \<lparr>pos_x = 400, pos_y = 0, focus_x = 0, focus_y = 0\<rparr>"

definition on_positive_axis :: "point \<Rightarrow> bool" where
  "on_positive_axis p \<longleftrightarrow> 200 \<le> pos_x p \<and> pos_y p = 0 \<and> focus_x p = 0 \<and> focus_y p = 0"

section \<open>Properties\<close>

lemma slope_plus_inverse_nonzero:
  fixes m :: real
  assumes "m \<noteq> 0"
  shows "m + 1 / m \<noteq> 0"
proof
  assume "m + 1 / m = 0"
  then have "(m + 1 / m) * m = 0" by simp
  then have "m * m + 1 = 0" using assms by (simp add: algebra_simps)
  moreover have "0 \<le> m * m" by simp
  ultimately show False by linarith
qed

lemma foot_on_line:
  fixes m :: real
  assumes "m \<noteq> 0"
  shows "(- b + (m * x + b) + x / m) / (m + 1 / m) = x"
proof -
  have "- b + (m * x + b) + x / m = x * (m + 1 / m)"
    by (simp add: algebra_simps)
  then show ?thesis using slope_plus_inverse_nonzero [OF assms] by simp
qed

text \<open>
  C8. For a slope \<open>m \<noteq> 0\<close>, any intercept \<open>b\<close> and a point \<open>(x, m * x + b)\<close> on the
  line, \<^verbatim>\<open>closest_distance_to_line\<close> returns exactly 0.
\<close>

theorem closest_distance_on_line_zero:
  "m \<noteq> 0 \<Longrightarrow> closest_distance_to_line m b x (m * x + b) = Inr 0"
  using slope_plus_inverse_nonzero [of m] foot_on_line [of m b x]
  by (simp add: closest_distance_to_line_def Let_def)

theorem closest_distance_on_line_zero_witness:
  "(2::real) \<noteq> 0 \<and> closest_distance_to_line 2 1 3 (2 * 3 + 1) = Inr 0"
  using closest_distance_on_line_zero [of 2 1 3] by simp

subsection \<open>Validators\<close>


lemma pair_scan_Cons:
  "(\<exists>i j. i < j \<and> j < length (p # ps) \<and> R ((p # ps) ! i) ((p # ps) ! j))
     \<longleftrightarrow> (\<exists>q\<in>set ps. R p q) \<or> (\<exists>i j. i < j \<and> j < length ps \<and> R (ps ! i) (ps ! j))"
  (is "?L \<longleftrightarrow> ?A \<or> ?B")
proof
  assume ?L
  then obtain i j where ij: "i < j" "j < length (p # ps)" "R ((p # ps) ! i) ((p # ps) ! j)"
    by blast
  from ij(1) obtain j' where j': "j = Suc j'" by (cases j) auto
  show "?A \<or> ?B"
  proof (cases i)
    case 0
    with ij j' have "R p (ps ! j')" "j' < length ps" by auto
    then show ?thesis using nth_mem by blast
  next
    case (Suc i')
    with ij j' have "i' < j'" "j' < length ps" "R (ps ! i') (ps ! j')" by auto
    then show ?thesis by blast
  qed
next
  assume "?A \<or> ?B"
  then show ?L
  proof
    assume ?A
    then obtain q where q: "q \<in> set ps" "R p q" by blast
    then obtain k where "k < length ps" "ps ! k = q" by (auto simp: in_set_conv_nth)
    with q have "0 < Suc k \<and> Suc k < length (p # ps) \<and> R ((p # ps) ! 0) ((p # ps) ! Suc k)"
      by simp
    then show ?L by blast
  next
    assume ?B
    then obtain i j where "i < j" "j < length ps" "R (ps ! i) (ps ! j)" by blast
    then have "Suc i < Suc j \<and> Suc j < length (p # ps) \<and> R ((p # ps) ! Suc i) ((p # ps) ! Suc j)"
      by simp
    then show ?L by blast
  qed
qed




lemma coincide_with_iff:
  "coincide_with p1 ps flag \<longleftrightarrow>
     flag \<or> (\<exists>p2\<in>set ps. pos_x p1 = pos_x p2 \<and> pos_y p1 = pos_y p2)"
  by (induction ps arbitrary: flag) auto

lemma degenerate_loop_iff:
  "degenerate_loop ps flag \<longleftrightarrow>
     flag \<or> (\<exists>i j. i < j \<and> j < length ps \<and>
        pos_x (ps ! i) = pos_x (ps ! j) \<and> pos_y (ps ! i) = pos_y (ps ! j))"
proof (induction ps arbitrary: flag)
  case Nil
  then show ?case by simp
next
  case (Cons p ps)
  show ?case
    unfolding pair_scan_Cons [of p ps "\<lambda>a b. pos_x a = pos_x b \<and> pos_y a = pos_y b"]
    using Cons [of "coincide_with p ps flag"] by (auto simp: coincide_with_iff)
qed

lemma blocked_any_False:
  "blocked_any ps points radius = Inr False \<longleftrightarrow> (\<forall>p\<in>set ps. is_blocked p points radius = Inr False)"
  by (induction ps) (auto split: sum.splits)




subsection \<open>A first relaxation step, evaluated\<close>

text \<open>
  The first step (\<open>step = 0\<close>, magnitude 200) of a trial with the default parameters
  \<^verbatim>\<open>repulse = 50, repulse_d = 2.1\<close> on the two example points: the far point moves
  120 left and 160 down; the move of the point on the rim of the origin disk would put
  it on the origin and is undone.
\<close>

lemma sqrt_square_num: "0 \<le> a \<Longrightarrow> a * a = b \<Longrightarrow> sqrt b = (a::real)"
  using real_sqrt_abs2 by (metis abs_of_nonneg real_sqrt_mult_self)

lemma sqrt_1000000: "sqrt 1000000 = 1000" by (rule sqrt_square_num) simp_all
lemma sqrt_1440000: "sqrt 1440000 = 1200" by (rule sqrt_square_num) simp_all
lemma sqrt_40000: "sqrt 40000 = 200" by (rule sqrt_square_num) simp_all

lemma example_forces_far:
  "sum_forces 0 [far_point, rim_point] 50 (21 / 10) 200 = Inr (- 3 / 5, - 4 / 5)"
  by (simp add: sum_forces_def far_point_def rim_point_def Let_def sqrt_1000000 sqrt_1440000)

lemma example_forces_rim:
  "sum_forces (Suc 0) [far_point, rim_point] 50 (21 / 10) 200 = Inr (3 / 5, 4 / 5)"
  by (simp add: sum_forces_def far_point_def rim_point_def Let_def sqrt_40000 sqrt_1440000)

lemma example_move_far:
  "move_point 0 far_point [far_point, rim_point] 200 50 (21 / 10) 200 = Inr far_point_moved"
  unfolding move_point_def example_forces_far
  by (simp add: Let_def power2_eq_square far_point_def far_point_moved_def)

lemma example_move_rim:
  "move_point (Suc 0) rim_point [far_point, rim_point] 200 50 (21 / 10) 200 = Inr origin_point"
  unfolding move_point_def example_forces_rim
  by (simp add: Let_def power2_eq_square rim_point_def origin_point_def)

lemma example_start_valid: "in_violation_full [far_point, rim_point] 200 800 = Inr False"
  by (simp add: in_violation_full_def is_blocked_def is_blocked_with_def behind_radial_def
      Let_def far_point_def rim_point_def)

lemma example_far_moved_valid: "in_violation_full [far_point_moved, rim_point] 200 800 = Inr False"
  by (simp add: in_violation_full_def is_blocked_def is_blocked_with_def behind_radial_def
      Let_def far_point_moved_def rim_point_def)

lemma example_both_moved_invalid:
  "in_violation_full [far_point_moved, origin_point] 200 800 = Inr True"
  by (simp add: in_violation_full_def far_point_moved_def origin_point_def)

lemma example_relax_step:
  "relax_step [far_point, rim_point] 200 50 (21 / 10) 200 800 = Inr [far_point_moved, rim_point]"
  by (simp add: relax_step_def enumerate_eq_zip upt_rec example_move_far example_move_rim
      example_far_moved_valid example_both_moved_invalid)

lemma example_init:
  "random_init_uniform example_randint 2 800 200 = Inr [far_point, rim_point]"
  by (simp add: random_init_uniform_def example_randint_def far_point_def rim_point_def upt_rec)

lemma example_power: "power_of 200 [far_point_moved, rim_point] = Inr (17 / 16)"
  by (simp add: power_of_def far_point_moved_def rim_point_def)

lemma example_trial_step:
  "trial_step 200 800 0 (trial_init [far_point, rim_point] 50 (21 / 10)) =
     Inr \<lparr>st_points = [far_point_moved, rim_point], st_repulse = 50, st_repulse_d = 21 / 10,
          st_best_power = 17 / 16, st_best_points = [far_point_moved, rim_point]\<rparr>"
  by (simp add: trial_step_def trial_init_def step_magnitude_def anneal_repulse_d_def
      anneal_repulse_def example_relax_step example_power)


subsection \<open>Relaxation: the focus is a frame\<close>

lemma move_point_focus:
  "move_point i p points magnitude repulse repulse_d radius = Inr q \<Longrightarrow> focus_of q = focus_of p"
  by (auto simp: move_point_def focus_of_def Let_def split: sum.splits if_splits)

lemma enumerate_entries:
  "ip \<in> set (enumerate n xs) \<Longrightarrow> n \<le> fst ip \<and> fst ip < n + length xs \<and> snd ip = xs ! (fst ip - n)"
  by (cases ip) (auto simp: in_set_enumerate_eq)

lemma update_keeps_focus:
  assumes "i < length points" "map focus_of np = map focus_of points"
    and "focus_of q = focus_of (points ! i)"
  shows "map focus_of (np[i := q]) = map focus_of points"
proof -
  have "length np = length points" using assms(2) by (metis length_map)
  have "map focus_of (np[i := q]) = (map focus_of points)[i := focus_of (points ! i)]"
    using assms by (simp add: map_update)
  also have "\<dots> = map focus_of points"
    using assms(1) by (simp add: list_update_same_conv)
  finally show ?thesis .
qed

lemma move_loop_focus:
  assumes "\<forall>ip\<in>set rest. fst ip < length points \<and> snd ip = points ! fst ip"
    and "map focus_of np = map focus_of points"
    and "move_loop points magnitude repulse repulse_d radius arena_size rest np = Inr out"
  shows "map focus_of out = map focus_of points"
  using assms
proof (induction rest arbitrary: np)
  case Nil
  then show ?case by simp
next
  case (Cons ip rest)
  from Cons.prems(1) have i: "fst ip < length points" and p: "snd ip = points ! fst ip"
    by auto
  from Cons.prems(3) obtain moved where
    moved: "move_point (fst ip) (snd ip) points magnitude repulse repulse_d radius = Inr moved"
    by (auto split: sum.splits)
  from Cons.prems(3) moved obtain violation where
    viol: "in_violation_full (np[fst ip := moved]) radius arena_size = Inr violation"
    by (auto split: sum.splits)
  have fm: "focus_of moved = focus_of (points ! fst ip)"
    using move_point_focus [OF moved] p by simp
  have keep1: "map focus_of (np[fst ip := moved]) = map focus_of points"
    using update_keeps_focus [OF i Cons.prems(2) fm] .
  have keep2: "map focus_of ((np[fst ip := moved])[fst ip := snd ip]) = map focus_of points"
    using update_keeps_focus [OF i keep1, of "snd ip"] p by simp
  show ?case
  proof (cases violation)
    case True
    with Cons.prems(3) moved viol have
      "move_loop points magnitude repulse repulse_d radius arena_size rest
         ((np[fst ip := moved])[fst ip := snd ip]) = Inr out" by simp
    from Cons.IH [OF _ keep2 this] Cons.prems(1) show ?thesis by simp
  next
    case False
    with Cons.prems(3) moved viol have
      "move_loop points magnitude repulse repulse_d radius arena_size rest
         (np[fst ip := moved]) = Inr out" by simp
    from Cons.IH [OF _ keep1 this] Cons.prems(1) show ?thesis by simp
  qed
qed

lemma relax_step_focus:
  assumes "relax_step points magnitude repulse repulse_d radius arena_size = Inr out"
  shows "map focus_of out = map focus_of points"
proof -
  have "\<forall>ip\<in>set (enumerate 0 points). fst ip < length points \<and> snd ip = points ! fst ip"
    using enumerate_entries [of _ 0 points] by auto
  from move_loop_focus [OF this refl] assms show ?thesis
    by (simp add: relax_step_def)
qed

lemma trial_step_focus:
  "trial_step radius arena_size step st = Inr st' \<Longrightarrow>
     map focus_of (st_points st') = map focus_of (st_points st)"
  by (auto simp: trial_step_def Let_def relax_step_focus split: sum.splits if_splits)

lemma run_steps_focus:
  "run_steps radius arena_size steps st = Inr st' \<Longrightarrow>
     map focus_of (st_points st') = map focus_of (st_points st)"
proof (induction steps arbitrary: st)
  case Nil
  then show ?case by simp
next
  case (Cons step steps)
  then show ?case
    by (auto split: sum.splits dest!: trial_step_focus)
qed

lemma random_init_uniform_focus:
  "random_init_uniform rnd num_points arena_size radius = Inr pts \<Longrightarrow>
     \<forall>p\<in>set pts. focus_of p = (0, 0)"
  by (auto simp: random_init_uniform_def focus_of_def split: if_splits)

text \<open>
  C9. A relaxation step changes centre coordinates only: the step returns as many
  points as it was given and every point keeps its focus. Hence a trial started from
  \<^verbatim>\<open>random_init_uniform\<close> has every focus at \<open>(0, 0)\<close> after any sequence of steps.
\<close>

theorem relaxation_keeps_foci:
  "(relax_step points magnitude repulse repulse_d radius arena_size = Inr out \<longrightarrow>
      length out = length points \<and>
      (\<forall>i<length points. focus_x (out ! i) = focus_x (points ! i)
                        \<and> focus_y (out ! i) = focus_y (points ! i)))
   \<and> (random_init_uniform rnd num_points arena_size init_radius = Inr pts \<and>
      run_steps radius arena_size steps (trial_init pts repulse repulse_d) = Inr st' \<longrightarrow>
      length (st_points st') = num_points \<and>
      (\<forall>p\<in>set (st_points st'). focus_x p = 0 \<and> focus_y p = 0))"
proof (intro conjI impI)
  assume "relax_step points magnitude repulse repulse_d radius arena_size = Inr out"
  then have eq: "map focus_of out = map focus_of points" by (rule relax_step_focus)
  then show "length out = length points" by (metis length_map)
  show "\<forall>i<length points. focus_x (out ! i) = focus_x (points ! i)
                        \<and> focus_y (out ! i) = focus_y (points ! i)"
  proof (intro allI impI)
    fix i assume "i < length points"
    with eq have "focus_of (out ! i) = focus_of (points ! i)"
      by (metis length_map nth_map)
    then show "focus_x (out ! i) = focus_x (points ! i) \<and> focus_y (out ! i) = focus_y (points ! i)"
      by (simp add: focus_of_def)
  qed
next
  assume a: "random_init_uniform rnd num_points arena_size init_radius = Inr pts \<and>
      run_steps radius arena_size steps (trial_init pts repulse repulse_d) = Inr st'"
  then have eq: "map focus_of (st_points st') = map focus_of pts"
    using run_steps_focus [of radius arena_size steps "trial_init pts repulse repulse_d" st']
    by (simp add: trial_init_def)
  from a have len: "length pts = num_points"
    by (auto simp: random_init_uniform_def split: if_splits)
  from eq show "length (st_points st') = num_points" using len by (metis length_map)
  from a have z: "\<forall>p\<in>set pts. focus_of p = (0, 0)"
    using random_init_uniform_focus by blast
  show "\<forall>p\<in>set (st_points st'). focus_x p = 0 \<and> focus_y p = 0"
  proof
    fix p assume "p \<in> set (st_points st')"
    then have "focus_of p \<in> set (map focus_of pts)" using eq by (metis image_eqI set_map)
    with z have "focus_of p = (0, 0)" by auto
    then show "focus_x p = 0 \<and> focus_y p = 0" by (simp add: focus_of_def)
  qed
qed

theorem relaxation_keeps_foci_witness:
  "relax_step [far_point, rim_point] 200 50 (21 / 10) 200 800 = Inr [far_point_moved, rim_point]
   \<and> focus_x far_point_moved = focus_x far_point \<and> focus_y far_point_moved = focus_y far_point
   \<and> random_init_uniform example_randint 2 800 200 = Inr [far_point, rim_point]
   \<and> (\<exists>st'. run_steps 200 800 [0] (trial_init [far_point, rim_point] 50 (21 / 10)) = Inr st'
          \<and> length (st_points st') = 2
          \<and> (\<forall>p\<in>set (st_points st'). focus_x p = 0 \<and> focus_y p = 0))"
proof -
  let ?st = "\<lparr>st_points = [far_point_moved, rim_point], st_repulse = 50, st_repulse_d = 21 / 10,
          st_best_power = 17 / 16, st_best_points = [far_point_moved, rim_point]\<rparr>"
  have run: "run_steps 200 800 [0] (trial_init [far_point, rim_point] 50 (21 / 10)) = Inr ?st"
    by (simp add: example_trial_step)
  note inst = relaxation_keeps_foci
    [where points = "[far_point, rim_point]" and magnitude = 200 and repulse = 50
       and repulse_d = "21 / 10" and radius = 200 and arena_size = 800
       and out = "[far_point_moved, rim_point]" and rnd = example_randint and num_points = 2
       and init_radius = 200 and pts = "[far_point, rim_point]" and steps = "[0]" and st' = ?st]
  from inst example_relax_step example_init run
  have "focus_x far_point_moved = focus_x far_point \<and> focus_y far_point_moved = focus_y far_point"
    and "length (st_points ?st) = 2 \<and> (\<forall>p\<in>set (st_points ?st). focus_x p = 0 \<and> focus_y p = 0)"
    by auto
  with example_relax_step example_init run show ?thesis by blast
qed

subsection \<open>Relaxation: where the update is undefined\<close>

lemma repulse_loop_total:
  "\<exists>r. repulse_loop p_i i j ps repulse repulse_d radius r_force = Inr r"
proof (induction ps arbitrary: j r_force)
  case Nil
  then show ?case by simp
next
  case (Cons p ps)
  let ?near = "\<bar>sqrt ((pos_x p_i - pos_x p)\<^sup>2 + (pos_y p_i - pos_y p)\<^sup>2)\<bar> < repulse_d * \<bar>radius\<bar>"
  let ?pushed = "(fst r_force + repulse * (pos_x p_i - pos_x p) / radius,
                  snd r_force + repulse * (pos_y p_i - pos_y p) / radius)"
  have unreachable: "\<not> ?near" if "radius = 0"
    using that by (simp add: not_sum_power2_lt_zero)
  obtain r1 where r1: "repulse_loop p_i i (Suc j) ps repulse repulse_d radius r_force = Inr r1"
    using Cons.IH by blast
  obtain r2 where r2: "repulse_loop p_i i (Suc j) ps repulse repulse_d radius ?pushed = Inr r2"
    using Cons.IH by blast
  consider "i = j" | "i \<noteq> j" "\<not> ?near" | "i \<noteq> j" "?near" "radius \<noteq> 0"
    using unreachable by blast
  then show ?case
  proof cases
    case 1
    then show ?thesis using r1 by simp
  next
    case 2
    then show ?thesis using r1 by (simp add: Let_def)
  next
    case 3
    then show ?thesis using r2 by (simp add: Let_def)
  qed
qed

lemma sum_forces_cases:
  assumes "i < length points"
  shows "(focus_distance (points ! i) = 0 \<and>
            sum_forces i points repulse repulse_d radius = Inl ZeroDivisionError)
         \<or> (focus_distance (points ! i) \<noteq> 0 \<and>
            (\<exists>f. sum_forces i points repulse repulse_d radius = Inr f))"
proof -
  obtain r where "repulse_loop (points ! i) i 0 points repulse repulse_d radius (0, 0) = Inr r"
    using repulse_loop_total by blast
  then show ?thesis using assms
    by (simp add: sum_forces_def focus_distance_def Let_def)
qed

lemma norm_zero_iff: "sqrt ((fst f)\<^sup>2 + (snd f)\<^sup>2) = 0 \<longleftrightarrow> f = (0::real, 0::real)"
  by (cases f) (simp add: sum_power2_eq_zero_iff)

lemma move_point_error_iff:
  assumes "i < length points"
  shows "move_point i p points magnitude repulse repulse_d radius = Inl ZeroDivisionError
         \<longleftrightarrow> focus_distance (points ! i) = 0
             \<or> sum_forces i points repulse repulse_d radius = Inr (0, 0)"
  using sum_forces_cases [OF assms, of repulse repulse_d radius]
  by (auto simp: move_point_def Let_def norm_zero_iff split: sum.splits)

lemma move_point_cases:
  assumes "i < length points"
  shows "move_point i p points magnitude repulse repulse_d radius = Inl ZeroDivisionError
         \<or> (\<exists>q. move_point i p points magnitude repulse repulse_d radius = Inr q)"
  using sum_forces_cases [OF assms, of repulse repulse_d radius]
  by (auto simp: move_point_def Let_def split: sum.splits)

lemma closest_distance_error:
  "closest_distance_to_line m b x y = Inl e \<Longrightarrow> e = ZeroDivisionError"
  by (auto simp: closest_distance_to_line_def Let_def split: if_splits)

lemma blocked_loop_error:
  "blocked_loop behind m b p1 ps radius = Inl e \<Longrightarrow> e = ZeroDivisionError"
  by (induction ps) (auto split: if_splits sum.splits dest: closest_distance_error)

lemma is_blocked_with_error:
  "is_blocked_with behind p1 ps radius = Inl e \<Longrightarrow> e = ZeroDivisionError"
  by (auto simp: is_blocked_with_def Let_def split: if_splits dest: blocked_loop_error)

lemma blocked_any_error:
  "blocked_any ps points radius = Inl e \<Longrightarrow> e = ZeroDivisionError"
  by (induction ps) (auto simp: is_blocked_def split: if_splits sum.splits dest: is_blocked_with_error)

lemma in_violation_full_error:
  "in_violation_full points radius arena_size = Inl e \<Longrightarrow> e = ZeroDivisionError"
  by (auto simp: in_violation_full_def split: if_splits dest: blocked_any_error)

lemma move_loop_raises:
  assumes "\<forall>ip\<in>set rest. fst ip < length points"
    and "\<exists>ip\<in>set rest.
           move_point (fst ip) (snd ip) points magnitude repulse repulse_d radius
             = Inl ZeroDivisionError"
  shows "move_loop points magnitude repulse repulse_d radius arena_size rest np
           = Inl ZeroDivisionError"
  using assms
proof (induction rest arbitrary: np)
  case Nil
  then show ?case by simp
next
  case (Cons ip rest)
  from Cons.prems(1) have i: "fst ip < length points" by simp
  show ?case
  proof (cases "move_point (fst ip) (snd ip) points magnitude repulse repulse_d radius")
    case (Inl e)
    with move_point_cases [OF i, of "snd ip" magnitude repulse repulse_d radius]
    show ?thesis by auto
  next
    case (Inr moved)
    with Cons.prems(2) have bad: "\<exists>ip\<in>set rest.
           move_point (fst ip) (snd ip) points magnitude repulse repulse_d radius
             = Inl ZeroDivisionError" by auto
    have all: "\<forall>ip\<in>set rest. fst ip < length points" using Cons.prems(1) by simp
    show ?thesis
    proof (cases "in_violation_full (np[fst ip := moved]) radius arena_size")
      case (Inl e)
      then have "e = ZeroDivisionError" by (rule in_violation_full_error)
      with Inl Inr show ?thesis by simp
    next
      case Inr2: (Inr violation)
      show ?thesis using Inr Inr2 Cons.IH [OF all bad] by simp
    qed
  qed
qed

lemma enumerate_nth_mem: "i < length xs \<Longrightarrow> (i, xs ! i) \<in> set (enumerate 0 xs)"
  by (simp add: in_set_enumerate_eq)

lemma sqrt_160000: "sqrt 160000 = 400" by (rule sqrt_square_num) simp_all

lemma example_forces_cancel:
  "sum_forces 0 [rim_point_opposite, rim_point] (1 / 2) (21 / 10) 200 = Inr (0, 0)"
  by (simp add: sum_forces_def rim_point_opposite_def rim_point_def Let_def sqrt_40000 sqrt_160000)

lemma example_cancel_valid:
  "in_violation_full [rim_point_opposite, rim_point] 200 800 = Inr False"
  by (simp add: in_violation_full_def is_blocked_def is_blocked_with_def behind_radial_def
      Let_def rim_point_opposite_def rim_point_def)

text \<open>
  C10. The position update has no guard against a zero norm. For a point of the
  configuration the update yields a new position exactly when its distance to its
  focus is nonzero and its net force is not the zero vector. When either fails, the
  update raises \<^verbatim>\<open>ZeroDivisionError\<close> and so does the whole step: nothing is rolled
  back.
\<close>

theorem update_undefined_iff_degenerate:
  assumes "i < length points"
  shows "((\<exists>q. move_point i (points ! i) points magnitude repulse repulse_d radius = Inr q)
            \<longleftrightarrow> focus_distance (points ! i) \<noteq> 0
                \<and> (\<exists>f. sum_forces i points repulse repulse_d radius = Inr f \<and> f \<noteq> (0, 0)))
       \<and> (focus_distance (points ! i) = 0
             \<or> sum_forces i points repulse repulse_d radius = Inr (0, 0)
          \<longrightarrow> move_point i (points ! i) points magnitude repulse repulse_d radius
                = Inl ZeroDivisionError
              \<and> relax_step points magnitude repulse repulse_d radius arena_size
                = Inl ZeroDivisionError)"
proof (intro conjI impI)
  show "(\<exists>q. move_point i (points ! i) points magnitude repulse repulse_d radius = Inr q)
            \<longleftrightarrow> focus_distance (points ! i) \<noteq> 0
                \<and> (\<exists>f. sum_forces i points repulse repulse_d radius = Inr f \<and> f \<noteq> (0, 0))"
    using move_point_error_iff [OF assms, of "points ! i" magnitude repulse repulse_d radius]
      move_point_cases [OF assms, of "points ! i" magnitude repulse repulse_d radius]
      sum_forces_cases [OF assms, of repulse repulse_d radius]
    by auto
next
  assume "focus_distance (points ! i) = 0
             \<or> sum_forces i points repulse repulse_d radius = Inr (0, 0)"
  then show err: "move_point i (points ! i) points magnitude repulse repulse_d radius
                = Inl ZeroDivisionError"
    using move_point_error_iff [OF assms] by blast
  have "\<forall>ip\<in>set (enumerate 0 points). fst ip < length points"
    by (auto simp: in_set_enumerate_eq)
  moreover have "\<exists>ip\<in>set (enumerate 0 points).
           move_point (fst ip) (snd ip) points magnitude repulse repulse_d radius
             = Inl ZeroDivisionError"
    using enumerate_nth_mem [OF assms] err by force
  ultimately show "relax_step points magnitude repulse repulse_d radius arena_size
                = Inl ZeroDivisionError"
    unfolding relax_step_def by (rule move_loop_raises)
qed

theorem update_undefined_iff_degenerate_witness:
  "0 < length [rim_point_opposite, rim_point]
   \<and> in_violation_full [rim_point_opposite, rim_point] 200 800 = Inr False
   \<and> sum_forces 0 [rim_point_opposite, rim_point] (1 / 2) (21 / 10) 200 = Inr (0, 0)
   \<and> move_point 0 rim_point_opposite [rim_point_opposite, rim_point] 200 (1 / 2) (21 / 10) 200
        = Inl ZeroDivisionError
   \<and> relax_step [rim_point_opposite, rim_point] 200 (1 / 2) (21 / 10) 200 800
        = Inl ZeroDivisionError"
  using update_undefined_iff_degenerate
    [where i = 0 and points = "[rim_point_opposite, rim_point]" and magnitude = 200
       and repulse = "1 / 2" and repulse_d = "21 / 10" and radius = 200 and arena_size = 800]
    example_forces_cancel example_cancel_valid
  by simp

subsection \<open>Relaxation: rollback\<close>

lemma enumerate_drop_step:
  "k < length xs \<Longrightarrow> enumerate k (drop k xs) = (k, xs ! k) # enumerate (Suc k) (drop (Suc k) xs)"
  by (simp add: Cons_nth_drop_Suc [symmetric])

lemma move_loop_per_point:
  assumes "move_loop points magnitude repulse repulse_d radius arena_size
             (enumerate k (drop k points)) np = Inr out"
    and "length np = length points"
    and "drop k np = drop k points"
  shows "length out = length points \<and> take k out = take k np \<and>
     (\<forall>i. k \<le> i \<and> i < length points \<longrightarrow>
        (\<exists>moved. move_point i (points ! i) points magnitude repulse repulse_d radius = Inr moved \<and>
           (in_violation_full ((take i out @ drop i points)[i := moved]) radius arena_size = Inr True
              \<and> out ! i = points ! i
            \<or> in_violation_full ((take i out @ drop i points)[i := moved]) radius arena_size = Inr False
              \<and> out ! i = moved)))"
  using assms
proof (induction "length points - k" arbitrary: k np)
  case 0
  then have "drop k points = []" and "length points \<le> k" by simp_all
  with "0.prems" show ?case by auto
next
  case (Suc n)
  then have k: "k < length points" by simp
  let ?run = "move_loop points magnitude repulse repulse_d radius arena_size"
  have split: "enumerate k (drop k points)
                 = (k, points ! k) # enumerate (Suc k) (drop (Suc k) points)"
    using k by (rule enumerate_drop_step)
  from Suc.prems(1) obtain moved where
    moved: "move_point k (points ! k) points magnitude repulse repulse_d radius = Inr moved"
    unfolding split by (auto split: sum.splits)
  from Suc.prems(1) moved obtain violation where
    viol: "in_violation_full (np[k := moved]) radius arena_size = Inr violation"
    unfolding split by (auto split: sum.splits)
  define np' where "np' = (if violation then (np[k := moved])[k := points ! k] else np[k := moved])"
  have run': "?run (enumerate (Suc k) (drop (Suc k) points)) np' = Inr out"
    using Suc.prems(1) moved viol unfolding split np'_def by (simp split: if_splits)
  have npk: "np ! k = points ! k"
    using Suc.prems(2,3) k by (metis nth_via_drop Cons_nth_drop_Suc)
  have len': "length np' = length points" using Suc.prems(2) by (simp add: np'_def)
  have "drop (Suc k) np = drop (Suc k) points"
    using Suc.prems(3) by (metis drop_Suc tl_drop)
  then have drop': "drop (Suc k) np' = drop (Suc k) points"
    by (simp add: np'_def)
  have "n = length points - Suc k" using Suc.hyps(2) by simp
  from Suc.hyps(1) [OF this run' len' drop']
  have len_out: "length out = length points"
    and tk: "take (Suc k) out = take (Suc k) np'"
    and later: "\<forall>i. Suc k \<le> i \<and> i < length points \<longrightarrow>
        (\<exists>moved. move_point i (points ! i) points magnitude repulse repulse_d radius = Inr moved \<and>
           (in_violation_full ((take i out @ drop i points)[i := moved]) radius arena_size = Inr True
              \<and> out ! i = points ! i
            \<or> in_violation_full ((take i out @ drop i points)[i := moved]) radius arena_size = Inr False
              \<and> out ! i = moved))"
    by blast+
  have "take k out = take k (take (Suc k) out)" by (simp add: min_def)
  also have "\<dots> = take k (take (Suc k) np')" using tk by simp
  also have "\<dots> = take k np'" by (simp add: min_def)
  also have "\<dots> = take k np" by (simp add: np'_def)
  finally have tk0: "take k out = take k np" .
  have "out ! k = take (Suc k) out ! k" by simp
  also have "\<dots> = np' ! k" using tk by simp
  finally have outk: "out ! k = (if violation then points ! k else moved)"
    using k Suc.prems(2) by (simp add: np'_def)
  have "take k out @ drop k points = take k np @ drop k np"
    using tk0 Suc.prems(3) by simp
  then have cand: "(take k out @ drop k points)[k := moved] = np[k := moved]" by simp
  have here: "in_violation_full ((take k out @ drop k points)[k := moved]) radius arena_size = Inr True
              \<and> out ! k = points ! k
            \<or> in_violation_full ((take k out @ drop k points)[k := moved]) radius arena_size = Inr False
              \<and> out ! k = moved"
    unfolding cand using viol outk by (cases violation) simp_all
  show ?case
  proof (intro conjI allI impI)
    show "length out = length points" by (rule len_out)
    show "take k out = take k np" by (rule tk0)
    fix i assume i: "k \<le> i \<and> i < length points"
    show "\<exists>moved. move_point i (points ! i) points magnitude repulse repulse_d radius = Inr moved \<and>
           (in_violation_full ((take i out @ drop i points)[i := moved]) radius arena_size = Inr True
              \<and> out ! i = points ! i
            \<or> in_violation_full ((take i out @ drop i points)[i := moved]) radius arena_size = Inr False
              \<and> out ! i = moved)"
    proof (cases "i = k")
      case True
      then show ?thesis using moved here by blast
    next
      case False
      with i have "Suc k \<le> i \<and> i < length points" by simp
      with later show ?thesis by blast
    qed
  qed
qed

lemma example_synchronous:
  "spec_synchronous_update [far_point, rim_point] 200 50 (21 / 10) 200
     = Inr [far_point_moved, origin_point]"
  by (simp add: spec_synchronous_update_def enumerate_eq_zip upt_rec example_move_far
      example_move_rim)

lemma example_far_moves: "far_point_moved \<noteq> far_point"
  by (simp add: far_point_moved_def far_point_def)

text \<open>
  C1, as amended. The rollback of a relaxation step is per point. Point \<open>i\<close> is moved
  on a copy that holds the final positions of the points before it and the old
  positions of the points after it; if that copy fails validation, point \<open>i\<close> alone
  returns to its position before the step, otherwise its move is kept.
\<close>

theorem rollback_is_per_point:
  assumes "relax_step points magnitude repulse repulse_d radius arena_size = Inr out"
  shows "length out = length points \<and>
     (\<forall>i<length points.
        \<exists>moved. move_point i (points ! i) points magnitude repulse repulse_d radius = Inr moved \<and>
           (in_violation_full ((take i out @ drop i points)[i := moved]) radius arena_size = Inr True
              \<and> out ! i = points ! i
            \<or> in_violation_full ((take i out @ drop i points)[i := moved]) radius arena_size = Inr False
              \<and> out ! i = moved))"
  using move_loop_per_point [of points magnitude repulse repulse_d radius arena_size 0 points out]
    assms
  by (simp add: relax_step_def)


theorem rollback_is_per_point_witness:
  "relax_step [far_point, rim_point] 200 50 (21 / 10) 200 800 = Inr [far_point_moved, rim_point]
   \<and> length [far_point_moved, rim_point] = length [far_point, rim_point]
   \<and> (\<exists>moved. move_point 1 ([far_point, rim_point] ! 1) [far_point, rim_point]
                   200 50 (21 / 10) 200 = Inr moved \<and>
           (in_violation_full
              ((take 1 [far_point_moved, rim_point] @ drop 1 [far_point, rim_point])[1 := moved])
              200 800 = Inr True
              \<and> [far_point_moved, rim_point] ! 1 = [far_point, rim_point] ! 1
            \<or> in_violation_full
              ((take 1 [far_point_moved, rim_point] @ drop 1 [far_point, rim_point])[1 := moved])
              200 800 = Inr False
              \<and> [far_point_moved, rim_point] ! 1 = moved))"
proof -
  note step = example_relax_step
  from rollback_is_per_point [OF step]
  have len: "length [far_point_moved, rim_point] = length [far_point, rim_point]"
    and each: "\<forall>i<length [far_point, rim_point].
        \<exists>moved. move_point i ([far_point, rim_point] ! i) [far_point, rim_point]
                   200 50 (21 / 10) 200 = Inr moved \<and>
           (in_violation_full
              ((take i [far_point_moved, rim_point] @ drop i [far_point, rim_point])[i := moved])
              200 800 = Inr True
              \<and> [far_point_moved, rim_point] ! i = [far_point, rim_point] ! i
            \<or> in_violation_full
              ((take i [far_point_moved, rim_point] @ drop i [far_point, rim_point])[i := moved])
              200 800 = Inr False
              \<and> [far_point_moved, rim_point] ! i = moved)"
    by blast+
  have "1 < length [far_point, rim_point]" by simp
  with each have "\<exists>moved. move_point 1 ([far_point, rim_point] ! 1) [far_point, rim_point]
                   200 50 (21 / 10) 200 = Inr moved \<and>
           (in_violation_full
              ((take 1 [far_point_moved, rim_point] @ drop 1 [far_point, rim_point])[1 := moved])
              200 800 = Inr True
              \<and> [far_point_moved, rim_point] ! 1 = [far_point, rim_point] ! 1
            \<or> in_violation_full
              ((take 1 [far_point_moved, rim_point] @ drop 1 [far_point, rim_point])[1 := moved])
              200 800 = Inr False
              \<and> [far_point_moved, rim_point] ! 1 = moved)"
    by blast
  with step len show ?thesis by blast
qed

text \<open>
  C1, as stated, fails in the first step of a trial on the two example points. The
  start is valid; moving both points at once gives a configuration that fails
  validation (the rim point lands on the origin); the step nevertheless keeps the move
  of the far point, so the configuration after the step is not the one before it.
\<close>

theorem global_rollback_counterexample:
  "in_violation_full [far_point, rim_point] 200 800 = Inr False
   \<and> spec_synchronous_update [far_point, rim_point] 200 50 (21 / 10) 200
     = Inr [far_point_moved, origin_point]
   \<and> in_violation_full [far_point_moved, origin_point] 200 800 = Inr True
   \<and> relax_step [far_point, rim_point] 200 50 (21 / 10) 200 800
     = Inr [far_point_moved, rim_point]
   \<and> relax_step [far_point, rim_point] 200 50 (21 / 10) 200 800
     \<noteq> Inr [far_point, rim_point]"
  by (simp add: example_synchronous example_both_moved_invalid example_relax_step
      example_far_moves example_start_valid)


subsection \<open>Validators and visibility\<close>

lemma coincide_with_centres:
  assumes "length ps = length qs" "centre_of p1 = centre_of q1" "map centre_of ps = map centre_of qs"
  shows "coincide_with p1 ps flag = coincide_with q1 qs flag"
  using assms
  by (induction ps qs arbitrary: flag rule: list_induct2) (auto simp: centre_of_def)

lemma degenerate_loop_centres:
  assumes "length ps = length qs" "map centre_of ps = map centre_of qs"
  shows "degenerate_loop ps flag = degenerate_loop qs flag"
  using assms
proof (induction ps qs arbitrary: flag rule: list_induct2)
  case Nil
  then show ?case by simp
next
  case (Cons p ps q qs)
  then have "coincide_with p ps flag = coincide_with q qs flag"
    using coincide_with_centres [of ps qs p q flag] by simp
  with Cons show ?case by simp
qed

lemma overlap_with_centres:
  assumes "length ps = length qs" "centre_of p1 = centre_of q1" "map centre_of ps = map centre_of qs"
  shows "overlap_with p1 ps radius = overlap_with q1 qs radius"
  using assms
  by (induction ps qs rule: list_induct2) (auto simp: centre_of_def)

lemma self_intersect_centres:
  assumes "length ps = length qs" "map centre_of ps = map centre_of qs"
  shows "self_intersect ps radius = self_intersect qs radius"
  using assms
proof (induction ps qs rule: list_induct2)
  case Nil
  then show ?case by simp
next
  case (Cons p ps q qs)
  then have "overlap_with p ps radius = overlap_with q qs radius"
    using overlap_with_centres [of ps qs p q radius] by simp
  with Cons show ?case by simp
qed

lemma intersect_origin_line_centres:
  assumes "length ps = length qs" "map centre_of ps = map centre_of qs"
  shows "intersect_origin_line ps radius = intersect_origin_line qs radius"
  using assms
  by (induction ps qs rule: list_induct2) (auto simp: centre_of_def)

lemma in_violation_centres:
  assumes "map centre_of ps = map centre_of qs"
  shows "in_violation ps radius arena_size = in_violation qs radius arena_size'"
proof -
  have len: "length ps = length qs" using assms by (metis length_map)
  show ?thesis
    unfolding in_violation_def
    using degenerate_loop_centres [OF len assms] self_intersect_centres [OF len assms]
      intersect_origin_line_centres [OF len assms]
    by simp
qed

lemma in_violation_full_False_iff:
  "in_violation_full points radius arena_size = Inr False \<longleftrightarrow>
     \<not> degenerate_loop points False \<and> \<not> self_intersect points radius
     \<and> \<not> intersect_origin points radius
     \<and> (\<forall>p\<in>set points. is_blocked p points radius = Inr False)"
  by (simp add: in_violation_full_def blocked_any_False)

lemma blocked_any_True:
  "blocked_any ps points radius = Inr True \<Longrightarrow> \<exists>p\<in>set ps. is_blocked p points radius = Inr True"
  by (induction ps) (auto split: sum.splits if_splits)

lemma sqrt_less_iff_square: "0 \<le> r \<Longrightarrow> sqrt z < r \<longleftrightarrow> z < r\<^sup>2"
  by (metis real_sqrt_less_iff real_sqrt_abs abs_of_nonneg)

lemma example_diagonal_blocked:
  "is_blocked diagonal_far [diagonal_far, diagonal_near] 200 = Inr True"
  by (simp add: is_blocked_def is_blocked_with_def behind_radial_def Let_def
      closest_distance_to_line_def diagonal_far_def diagonal_near_def)

lemma example_diagonal_checks:
  "\<not> degenerate_loop [diagonal_far, diagonal_near] False
   \<and> \<not> self_intersect [diagonal_far, diagonal_near] 200
   \<and> \<not> intersect_origin [diagonal_far, diagonal_near] 200"
  by (simp add: diagonal_far_def diagonal_near_def)

lemma example_diagonal_verdict:
  "in_violation_full [diagonal_far, diagonal_near] 200 800 = Inr True"
  using example_diagonal_checks
  by (simp add: in_violation_full_def example_diagonal_blocked)

lemma example_turned_verdict:
  "in_violation_full [diagonal_far_turned, diagonal_near] 200 800 = Inr False"
  by (simp add: in_violation_full_def is_blocked_def is_blocked_with_def behind_radial_def Let_def
      closest_distance_to_line_def diagonal_far_turned_def diagonal_near_def
      sqrt_less_iff_square)

lemma example_same_centres:
  "map centre_of [diagonal_far, diagonal_near] = map centre_of [diagonal_far_turned, diagonal_near]"
  by (simp add: centre_of_def diagonal_far_def diagonal_far_turned_def)

lemma example_diagonal_blocked_line:
  "is_blocked_line diagonal_far [diagonal_far, diagonal_near] 200 = Inr True"
  by (simp add: is_blocked_line_def is_blocked_with_def behind_line_def Let_def
      closest_distance_to_line_def diagonal_far_def diagonal_near_def)

lemma example_diagonal_accepted_line:
  "in_violation [diagonal_far, diagonal_near] 200 800 = False"
  by (simp add: in_violation_def diagonal_far_def diagonal_near_def)

text \<open>
  C2, as amended. The validator of the relaxation script, \<^verbatim>\<open>in_violation_full\<close>, which
  every relaxation step calls, reports no violation exactly when the coincidence,
  overlap and origin-disk checks pass and no point is blocked; when the three checks
  pass and it reports a violation, some point is blocked. The validator of the
  constructive script, \<^verbatim>\<open>in_violation\<close>, has no visibility check: its verdict depends on
  the centres only.
\<close>

theorem validators_and_visibility:
  "(in_violation_full points radius arena_size = Inr False \<longleftrightarrow>
      \<not> degenerate_loop points False \<and> \<not> self_intersect points radius
      \<and> \<not> intersect_origin points radius
      \<and> (\<forall>p\<in>set points. is_blocked p points radius = Inr False))
   \<and> (\<not> degenerate_loop points False \<and> \<not> self_intersect points radius
      \<and> \<not> intersect_origin points radius
      \<and> in_violation_full points radius arena_size = Inr True
      \<longrightarrow> (\<exists>p\<in>set points. is_blocked p points radius = Inr True))
   \<and> (map centre_of points = map centre_of points' \<longrightarrow>
      in_violation points radius arena_size = in_violation points' radius arena_size)"
proof (intro conjI impI)
  show "in_violation_full points radius arena_size = Inr False \<longleftrightarrow>
      \<not> degenerate_loop points False \<and> \<not> self_intersect points radius
      \<and> \<not> intersect_origin points radius
      \<and> (\<forall>p\<in>set points. is_blocked p points radius = Inr False)"
    by (rule in_violation_full_False_iff)
next
  assume "\<not> degenerate_loop points False \<and> \<not> self_intersect points radius
      \<and> \<not> intersect_origin points radius
      \<and> in_violation_full points radius arena_size = Inr True"
  then have "blocked_any points points radius = Inr True"
    by (auto simp: in_violation_full_def)
  then show "\<exists>p\<in>set points. is_blocked p points radius = Inr True"
    by (rule blocked_any_True)
next
  assume "map centre_of points = map centre_of points'"
  then show "in_violation points radius arena_size = in_violation points' radius arena_size"
    by (rule in_violation_centres)
qed

theorem validators_and_visibility_witness:
  "(\<not> degenerate_loop [diagonal_far, diagonal_near] False
      \<and> \<not> self_intersect [diagonal_far, diagonal_near] 200
      \<and> \<not> intersect_origin [diagonal_far, diagonal_near] 200
      \<and> in_violation_full [diagonal_far, diagonal_near] 200 800 = Inr True)
   \<and> (\<exists>p\<in>set [diagonal_far, diagonal_near].
          is_blocked p [diagonal_far, diagonal_near] 200 = Inr True)
   \<and> map centre_of [diagonal_far, diagonal_near]
        = map centre_of [diagonal_far_turned, diagonal_near]
   \<and> in_violation [diagonal_far, diagonal_near] 200 800
        = in_violation [diagonal_far_turned, diagonal_near] 200 800"
  using validators_and_visibility
    [where points = "[diagonal_far, diagonal_near]"
       and points' = "[diagonal_far_turned, diagonal_near]"
       and radius = 200 and arena_size = 800]
    example_diagonal_checks example_diagonal_verdict example_same_centres
  by blast

text \<open>
  C2, as stated, fails on the diagonal configuration. Two configurations with the same
  centres pass the coincidence, overlap and origin-disk checks alike, and
  \<^verbatim>\<open>in_violation_full\<close> rejects the one whose far point is blocked and accepts the
  other. The constructive validator accepts the diagonal configuration although its
  far point is blocked under the half-plane policy.
\<close>

theorem step_validator_checks_visibility_counterexample:
  "map centre_of [diagonal_far, diagonal_near]
        = map centre_of [diagonal_far_turned, diagonal_near]
   \<and> \<not> degenerate_loop [diagonal_far, diagonal_near] False
   \<and> \<not> self_intersect [diagonal_far, diagonal_near] 200
   \<and> \<not> intersect_origin [diagonal_far, diagonal_near] 200
   \<and> in_violation_full [diagonal_far, diagonal_near] 200 800 = Inr True
   \<and> in_violation_full [diagonal_far_turned, diagonal_near] 200 800 = Inr False
   \<and> is_blocked_line diagonal_far [diagonal_far, diagonal_near] 200 = Inr True
   \<and> in_violation [diagonal_far, diagonal_near] 200 800 = False"
  using example_same_centres example_diagonal_checks example_diagonal_verdict
    example_turned_verdict example_diagonal_blocked_line example_diagonal_accepted_line
  by blast

subsection \<open>Relaxation: the annealing schedule\<close>

lemma floor_max_absorb:
  fixes a b :: real
  assumes "0 \<le> b"
  shows "max 0 (max 0 a - b) = max 0 (a - b)"
  using assms by (simp add: max_def)

lemma drop_d_nonneg: "0 \<le> sum_list (map (\<lambda>t. real_of_int \<lfloor>0.1 * real t / 1000\<rfloor>) steps)"
  by (induction steps) simp_all

lemma drop_nonneg: "0 \<le> sum_list (map (\<lambda>t. real_of_int \<lfloor>0.5 * real t / 1000\<rfloor>) steps)"
  by (induction steps) simp_all

lemma anneal_over_closed:
  "steps \<noteq> [] \<Longrightarrow>
   anneal_over steps (rd, rp) =
     (max 0 (rd - sum_list (map (\<lambda>t. real_of_int \<lfloor>0.1 * real t / 1000\<rfloor>) steps)),
      max 0 (rp - sum_list (map (\<lambda>t. real_of_int \<lfloor>0.5 * real t / 1000\<rfloor>) steps)))"
proof (induction steps arbitrary: rd rp)
  case Nil
  then show ?case by simp
next
  case (Cons t ts)
  show ?case
  proof (cases "ts = []")
    case True
    then show ?thesis by (simp add: anneal_repulse_d_def anneal_repulse_def)
  next
    case False
    let ?fd = "\<lambda>t. real_of_int \<lfloor>0.1 * real t / 1000\<rfloor>"
    let ?fp = "\<lambda>t. real_of_int \<lfloor>0.5 * real t / 1000\<rfloor>"
    have "anneal_over (t # ts) (rd, rp)
            = anneal_over ts (max 0 (rd - ?fd t), max 0 (rp - ?fp t))"
      by (simp add: anneal_repulse_d_def anneal_repulse_def)
    also have "\<dots> = (max 0 (max 0 (rd - ?fd t) - sum_list (map ?fd ts)),
                      max 0 (max 0 (rp - ?fp t) - sum_list (map ?fp ts)))"
      using Cons.IH [OF False] by simp
    also have "\<dots> = (max 0 (rd - ?fd t - sum_list (map ?fd ts)),
                      max 0 (rp - ?fp t - sum_list (map ?fp ts)))"
      using floor_max_absorb [OF drop_d_nonneg] floor_max_absorb [OF drop_nonneg] by simp
    finally show ?thesis by (simp add: algebra_simps)
  qed
qed

lemma no_drop_d_before_10000:
  "\<forall>t\<in>set steps. t < 10000 \<Longrightarrow>
     sum_list (map (\<lambda>t. real_of_int \<lfloor>0.1 * real t / 1000\<rfloor>) steps) = 0"
proof (induction steps)
  case Nil
  then show ?case by simp
next
  case (Cons t ts)
  then have "t < 10000" by simp
  then have "\<lfloor>0.1 * real t / 1000\<rfloor> = 0" by (simp add: floor_eq_iff)
  with Cons show ?case by simp
qed

lemma no_drop_before_2000:
  "\<forall>t\<in>set steps. t < 2000 \<Longrightarrow>
     sum_list (map (\<lambda>t. real_of_int \<lfloor>0.5 * real t / 1000\<rfloor>) steps) = 0"
proof (induction steps)
  case Nil
  then show ?case by simp
next
  case (Cons t ts)
  then have "t < 2000" by simp
  then have "\<lfloor>0.5 * real t / 1000\<rfloor> = 0" by (simp add: floor_eq_iff)
  with Cons show ?case by simp
qed

lemma run_steps_anneal:
  "run_steps radius arena_size steps st = Inr st' \<Longrightarrow>
     (st_repulse_d st', st_repulse st') = anneal_over steps (st_repulse_d st, st_repulse st)"
proof (induction steps arbitrary: st)
  case Nil
  then show ?case by simp
next
  case (Cons step steps)
  then obtain st1 where st1: "trial_step radius arena_size step st = Inr st1"
    and rest: "run_steps radius arena_size steps st1 = Inr st'"
    by (auto split: sum.splits)
  from st1 have "st_repulse_d st1 = anneal_repulse_d (st_repulse_d st) step"
    and "st_repulse st1 = anneal_repulse (st_repulse st) step"
    by (auto simp: trial_step_def Let_def split: sum.splits if_splits)
  with Cons.IH [OF rest] show ?case by simp
qed

lemma example_anneal_1000:
  "anneal_over [0..<Suc 1000] (21 / 10, 50) = (21 / 10, 50)"
proof -
  have "\<forall>t\<in>set [0..<Suc 1000]. t < 10000" and "\<forall>t\<in>set [0..<Suc 1000]. t < 2000"
    by auto
  from no_drop_d_before_10000 [OF this(1)] no_drop_before_2000 [OF this(2)]
    anneal_over_closed [of "[0..<Suc 1000]" "21 / 10" 50]
  show ?thesis by simp
qed


subsection \<open>A trial of one point\<close>

lemma lone_forces:
  assumes "on_positive_axis p"
  shows "sum_forces 0 [p] repulse repulse_d 200 = Inr (- 1, 0)"
proof -
  from assms have x: "0 < pos_x p" and rest: "pos_y p = 0" "focus_x p = 0" "focus_y p = 0"
    by (simp_all add: on_positive_axis_def)
  then show ?thesis by (simp add: sum_forces_def Let_def)
qed

lemma lone_move:
  assumes "on_positive_axis p"
  shows "move_point 0 p [p] magnitude repulse repulse_d 200
           = Inr \<lparr>pos_x = pos_x p - magnitude, pos_y = 0, focus_x = 0, focus_y = 0\<rparr>"
  using assms unfolding move_point_def lone_forces [OF assms]
  by (simp add: Let_def on_positive_axis_def)

lemma lone_validation:
  "in_violation_full [\<lparr>pos_x = a, pos_y = 0, focus_x = 0, focus_y = 0\<rparr>] 200 arena_size
     = (if a\<^sup>2 < 200\<^sup>2 then Inr True
        else if a + 0.01 = 0 then Inl ZeroDivisionError else Inr False)"
  by (simp add: in_violation_full_def is_blocked_def is_blocked_with_def Let_def)

lemma far_from_origin:
  fixes a :: real
  assumes "\<not> a\<^sup>2 < 200\<^sup>2" "0 \<le> a"
  shows "200 \<le> a"
proof (rule ccontr)
  assume "\<not> 200 \<le> a"
  then have "a < 200" by simp
  with assms(2) have "a\<^sup>2 < 200\<^sup>2" by (intro power_strict_mono) simp_all
  with assms(1) show False by simp
qed

lemma lone_relax_step:
  assumes "on_positive_axis p" "magnitude \<le> 200"
  shows "\<exists>q. relax_step [p] magnitude repulse repulse_d 200 arena_size = Inr [q]
             \<and> on_positive_axis q"
proof -
  let ?a = "pos_x p - magnitude"
  let ?moved = "\<lparr>pos_x = ?a, pos_y = 0, focus_x = 0, focus_y = 0\<rparr>"
  have a0: "0 \<le> ?a" using assms by (simp add: on_positive_axis_def)
  have step: "relax_step [p] magnitude repulse repulse_d 200 arena_size
      = (case in_violation_full [?moved] 200 arena_size of
           Inl e \<Rightarrow> Inl e
         | Inr violation \<Rightarrow> if violation then Inr [p] else Inr [?moved])"
    by (simp add: relax_step_def lone_move [OF assms(1)] split: sum.splits)
  show ?thesis
  proof (cases "?a\<^sup>2 < 200\<^sup>2")
    case True
    then have "relax_step [p] magnitude repulse repulse_d 200 arena_size = Inr [p]"
      unfolding step lone_validation by simp
    with assms(1) show ?thesis by blast
  next
    case False
    then have big: "200 \<le> ?a" using a0 by (rule far_from_origin)
    then have "?a + 0.01 \<noteq> 0" by simp
    with False have "relax_step [p] magnitude repulse repulse_d 200 arena_size = Inr [?moved]"
      unfolding step lone_validation by simp
    moreover have "on_positive_axis ?moved" using big by (simp add: on_positive_axis_def)
    ultimately show ?thesis by blast
  qed
qed

lemma lone_power:
  assumes "on_positive_axis q"
  shows "\<exists>v. power_of 200 [q] = Inr v"
  using assms by (simp add: power_of_def on_positive_axis_def)

lemma step_magnitude_le: "step_magnitude 200 step \<le> 200"
  by (simp add: step_magnitude_def)

lemma lone_trial_step:
  assumes "st_points st = [p]" "on_positive_axis p"
  shows "\<exists>st' q. trial_step 200 arena_size step st = Inr st'
             \<and> st_points st' = [q] \<and> on_positive_axis q"
proof -
  obtain q where q: "relax_step [p] (step_magnitude 200 step)
      (anneal_repulse (st_repulse st) step) (anneal_repulse_d (st_repulse_d st) step) 200 arena_size
      = Inr [q]" and ax: "on_positive_axis q"
    using lone_relax_step [OF assms(2) step_magnitude_le] by blast
  obtain v where v: "power_of 200 [q] = Inr v" using lone_power [OF ax] by blast
  show ?thesis
    using assms(1) q v ax by (simp add: trial_step_def Let_def)
qed

lemma lone_run_steps:
  assumes "st_points st = [p]" "on_positive_axis p"
  shows "\<exists>st'. run_steps 200 arena_size steps st = Inr st'"
  using assms
proof (induction steps arbitrary: st p)
  case Nil
  then show ?case by simp
next
  case (Cons step steps)
  obtain st1 q where st1: "trial_step 200 arena_size step st = Inr st1"
    and q: "st_points st1 = [q]" "on_positive_axis q"
    using lone_trial_step [OF Cons.prems] by blast
  from Cons.IH [OF q] obtain st' where "run_steps 200 arena_size steps st1 = Inr st'" by blast
  with st1 show ?case by simp
qed

lemma lone_point_start:
  "on_positive_axis lone_point" "in_violation_full [lone_point] 200 400 = Inr False"
  by (simp_all add: on_positive_axis_def lone_point_def lone_validation)

text \<open>
  C4 at step 1000. A trial of one point with the default parameters
  \<^verbatim>\<open>repulse = 50, repulse_d = 2.1\<close> starts from a valid configuration and runs through
  the steps \<open>0, \<dots>, 1000\<close> without raising. After step 1000 the loop still holds
  \<open>repulse_d = 2.1\<close> and \<open>repulse = 50\<close>, where a decay of 0.1 and 0.5 per 1000 steps
  gives 2.0 and 49.5: \<^verbatim>\<open>0.1*step//1000\<close> is the floor of \<open>0.1 * step / 1000\<close>, which is 0
  for every step below 10000. The step magnitude is the stated
  \<open>max 1 (200 - 10 * (1000 / 100)) = 100\<close>.
\<close>

theorem annealing_at_step_1000:
  "in_violation_full [lone_point] 200 400 = Inr False
   \<and> (\<exists>st'. run_steps 200 400 [0..<Suc 1000] (trial_init [lone_point] 50 (21 / 10)) = Inr st'
          \<and> st_repulse_d st' = 21 / 10 \<and> st_repulse st' = 50)
   \<and> spec_repulse_d (21 / 10) 1000 = 2
   \<and> spec_repulse 50 1000 = 99 / 2
   \<and> step_magnitude 200 1000 = 100"
proof -
  have "st_points (trial_init [lone_point] 50 (21 / 10)) = [lone_point]"
    by (simp add: trial_init_def)
  from lone_run_steps [OF this lone_point_start(1)]
  obtain st' where run:
    "run_steps 200 400 [0..<Suc 1000] (trial_init [lone_point] 50 (21 / 10)) = Inr st'"
    by blast
  from run_steps_anneal [OF run]
  have "(st_repulse_d st', st_repulse st') = anneal_over [0..<Suc 1000] (21 / 10, 50)"
    by (simp add: trial_init_def)
  then have "st_repulse_d st' = 21 / 10" "st_repulse st' = 50"
    unfolding example_anneal_1000 by simp_all
  with run have "\<exists>st'. run_steps 200 400 [0..<Suc 1000] (trial_init [lone_point] 50 (21 / 10))
        = Inr st' \<and> st_repulse_d st' = 21 / 10 \<and> st_repulse st' = 50"
    by blast
  moreover have "spec_repulse_d (21 / 10) 1000 = 2" "spec_repulse 50 1000 = 99 / 2"
    by (simp_all add: spec_repulse_d_def spec_repulse_def)
  moreover have "step_magnitude 200 1000 = 100" by (simp add: step_magnitude_def)
  ultimately show ?thesis using lone_point_start(2) by blast
qed


subsection \<open>The quality metric\<close>












subsection \<open>Focus assignment: what a failure returns\<close>

lemma assign_loop_failure:
  "assign_loop points radius arena_size max_x min_x rest True new_points = Inr (False, out)
     \<Longrightarrow> out = points"
proof (induction rest arbitrary: new_points)
  case Nil
  then show ?case by simp
next
  case (Cons ip rest)
  then show ?case by (auto split: sum.splits if_splits)
qed

lemma assign_loop_append:
  "assign_loop points radius arena_size max_x min_x xs can_adjust new_points = Inr (True, committed)
     \<Longrightarrow> assign_loop points radius arena_size max_x min_x (xs @ ys) can_adjust new_points
         = assign_loop points radius arena_size max_x min_x ys True committed"
proof (induction xs arbitrary: can_adjust new_points)
  case Nil
  then show ?case by simp
next
  case (Cons ip xs)
  then show ?case by (auto split: sum.splits if_splits)
qed

lemma enumerate_split_at:
  "k < length xs \<Longrightarrow>
     enumerate 0 xs = enumerate 0 (take k xs) @ (k, xs ! k) # enumerate (Suc k) (drop (Suc k) xs)"
proof -
  assume k: "k < length xs"
  then have "xs = take k xs @ xs ! k # drop (Suc k) xs" by (rule id_take_nth_drop)
  then have "enumerate 0 xs = enumerate 0 (take k xs @ xs ! k # drop (Suc k) xs)" by simp
  also have "\<dots> = enumerate 0 (take k xs) @ (k, xs ! k) # enumerate (Suc k) (drop (Suc k) xs)"
    using k by (simp add: enumerate_append_eq min_def)
  finally show ?thesis .
qed

lemma example_first_unblocked:
  "is_blocked_line lane_first_assigned [lane_first_assigned, lane_second] 100 = Inr False"
  by (simp add: is_blocked_line_def is_blocked_with_def behind_line_def Let_def
      lane_first_assigned_def lane_second_def)

lemma example_scan_first:
  "scan_loop 0 [0..1 - 1] [lane_first, lane_second] 100 0 0
     = Inr (True, [lane_first_assigned, lane_second])"
proof -
  have "\<lparr>pos_x = pos_x lane_first, pos_y = pos_y lane_first, focus_x = pos_x lane_first,
          focus_y = 0\<rparr> = lane_first_assigned"
    by (simp add: lane_first_def lane_first_assigned_def)
  moreover have "pos_x lane_first = 0" by (simp add: lane_first_def)
  ultimately show ?thesis
    by (simp add: Let_def example_first_unblocked)
qed

lemma example_scan_second:
  "scan_loop (Suc 0) [0..1 - 1] [lane_first_assigned, lane_second] 100 0 0
     = Inr (False, [lane_first_assigned, lane_second])"
  by (simp add: Let_def lane_second_def)

lemma example_prefix:
  "assign_loop [lane_first, lane_second] 100 1 0 0
     (enumerate 0 (take (Suc 0) [lane_first, lane_second])) True [lane_first, lane_second]
   = Inr (True, [lane_first_assigned, lane_second])"
  using example_scan_first by simp

lemma example_assign_foci:
  "assign_foci [lane_first, lane_second] 100 1 0 0 = Inr (False, [lane_first, lane_second])"
  using example_scan_first example_scan_second
  by (simp add: assign_foci_def enumerate_eq_zip upt_rec)

text \<open>
  C3, as amended. When \<^verbatim>\<open>assign_foci\<close> returns the failure flag, the points it
  returns are the input points, unchanged. And it does fail so whenever the scan of
  some point \<open>k\<close> ends without an accepted offset, whatever the reassignments
  \<open>committed\<close> for the points before \<open>k\<close> were.
\<close>

theorem failed_assignment_returns_input:
  "(assign_foci points radius arena_size max_x min_x = Inr (False, out) \<longrightarrow> out = points)
   \<and> (k < length points
      \<and> assign_loop points radius arena_size max_x min_x (enumerate 0 (take k points)) True points
          = Inr (True, committed)
      \<and> scan_loop k [0..arena_size - 1] committed radius max_x min_x = Inr (False, scanned)
      \<longrightarrow> assign_foci points radius arena_size max_x min_x = Inr (False, points))"
proof (intro conjI impI)
  assume "assign_foci points radius arena_size max_x min_x = Inr (False, out)"
  then show "out = points"
    unfolding assign_foci_def by (rule assign_loop_failure)
next
  assume a: "k < length points
      \<and> assign_loop points radius arena_size max_x min_x (enumerate 0 (take k points)) True points
          = Inr (True, committed)
      \<and> scan_loop k [0..arena_size - 1] committed radius max_x min_x = Inr (False, scanned)"
  then have split: "enumerate 0 points = enumerate 0 (take k points)
      @ (k, points ! k) # enumerate (Suc k) (drop (Suc k) points)"
    using enumerate_split_at by blast
  have "assign_foci points radius arena_size max_x min_x
      = assign_loop points radius arena_size max_x min_x
          ((k, points ! k) # enumerate (Suc k) (drop (Suc k) points)) True committed"
    unfolding assign_foci_def
    using a assign_loop_append
      [of points radius arena_size max_x min_x "enumerate 0 (take k points)" True points committed
          "(k, points ! k) # enumerate (Suc k) (drop (Suc k) points)"]
      split by simp
  also have "\<dots> = Inr (False, points)" using a by simp
  finally show "assign_foci points radius arena_size max_x min_x = Inr (False, points)" .
qed

theorem failed_assignment_returns_input_witness:
  "Suc 0 < length [lane_first, lane_second]
   \<and> assign_loop [lane_first, lane_second] 100 1 0 0
        (enumerate 0 (take (Suc 0) [lane_first, lane_second])) True [lane_first, lane_second]
      = Inr (True, [lane_first_assigned, lane_second])
   \<and> scan_loop (Suc 0) [0..1 - 1] [lane_first_assigned, lane_second] 100 0 0
      = Inr (False, [lane_first_assigned, lane_second])
   \<and> assign_foci [lane_first, lane_second] 100 1 0 0 = Inr (False, [lane_first, lane_second])"
proof -
  have len: "Suc 0 < length [lane_first, lane_second]" by simp
  from failed_assignment_returns_input
    [where points = "[lane_first, lane_second]" and radius = 100 and arena_size = 1
       and max_x = 0 and min_x = 0 and k = "Suc 0"
       and committed = "[lane_first_assigned, lane_second]"
       and scanned = "[lane_first_assigned, lane_second]"]
    len example_prefix example_scan_second
  have "assign_foci [lane_first, lane_second] 100 1 0 0 = Inr (False, [lane_first, lane_second])"
    by blast
  with len example_prefix example_scan_second show ?thesis by blast
qed

text \<open>
  C3, as stated, fails on the lane example: the scan of the first point commits the
  focus \<open>(0, 0)\<close>, the scan of the second point finds nothing, and the points returned
  with the failure flag still have the first point's old focus \<open>(7, 0)\<close>.
\<close>

theorem failure_carries_reassignments_counterexample:
  "assign_loop [lane_first, lane_second] 100 1 0 0
        (enumerate 0 (take (Suc 0) [lane_first, lane_second])) True [lane_first, lane_second]
      = Inr (True, [lane_first_assigned, lane_second])
   \<and> scan_loop (Suc 0) [0..1 - 1] [lane_first_assigned, lane_second] 100 0 0
      = Inr (False, [lane_first_assigned, lane_second])
   \<and> assign_foci [lane_first, lane_second] 100 1 0 0 = Inr (False, [lane_first, lane_second])
   \<and> focus_x ([lane_first_assigned, lane_second] ! 0) = 0
   \<and> focus_x ([lane_first, lane_second] ! 0) = 7"
  using example_prefix example_scan_second example_assign_foci
  by (simp add: lane_first_def lane_first_assigned_def)

subsection \<open>The angled-stack layout\<close>

text \<open>
  The angle stays below the cap \<open>3.14159 / 2\<close>, which is less than \<open>\<pi> / 2\<close>: the cosine
  of the cap is positive by the Maclaurin expansion to order 14.
\<close>

lemma cos_coeff_values:
  "cos_coeff 0 = 1" "cos_coeff (Suc 0) = 0" "cos_coeff 2 = - 1 / 2" "cos_coeff 3 = 0"
  "cos_coeff 4 = 1 / 24" "cos_coeff 5 = 0" "cos_coeff 6 = - 1 / 720" "cos_coeff 7 = 0"
  "cos_coeff 8 = 1 / 40320" "cos_coeff 9 = 0" "cos_coeff 10 = - 1 / 3628800"
  "cos_coeff 11 = 0" "cos_coeff 12 = 1 / 479001600" "cos_coeff 13 = 0"
  by (simp_all add: cos_coeff_def fact_numeral)

lemma sum_below_14:
  fixes f :: "nat \<Rightarrow> real"
  shows "(\<Sum>m<14. f m) =
     f 0 + f 1 + f 2 + f 3 + f 4 + f 5 + f 6 + f 7 + f 8 + f 9 + f 10 + f 11 + f 12 + f 13"
  by (simp add: eval_nat_numeral)

lemma cos_taylor_14:
  fixes x :: real
  shows "(\<Sum>m<14. cos_coeff m * x ^ m) =
     1 - x\<^sup>2 / 2 + x ^ 4 / 24 - x ^ 6 / 720 + x ^ 8 / 40320 - x ^ 10 / 3628800
       + x ^ 12 / 479001600"
  unfolding sum_below_14 by (simp add: cos_coeff_values)

lemma cos_taylor_lower:
  fixes x :: real
  assumes "0 < x"
  shows "(\<Sum>m<14. cos_coeff m * x ^ m) - x ^ 14 / fact 14 \<le> cos x"
proof -
  obtain t where
    eq: "cos x = (\<Sum>m<14. cos_coeff m * x ^ m) + (cos (t + 1/2 * real 14 * pi) / fact 14) * x ^ 14"
    using Maclaurin_cos_expansion2 [OF assms, of 14] by auto
  define r where "r = x ^ 14 / fact 14"
  have r: "0 \<le> r" using assms by (simp add: r_def)
  have "- 1 \<le> cos (t + 1/2 * real 14 * pi)" by simp
  then have "- 1 * r \<le> cos (t + 1/2 * real 14 * pi) * r"
    using r by (rule mult_right_mono)
  moreover have "(cos (t + 1/2 * real 14 * pi) / fact 14) * x ^ 14 = cos (t + 1/2 * real 14 * pi) * r"
    by (simp add: r_def)
  ultimately show ?thesis unfolding eq r_def by linarith
qed

lemma taylor_value_pos:
  "(0::real) < 1 - (314159 / 200000)\<^sup>2 / 2 + (314159 / 200000) ^ 4 / 24
      - (314159 / 200000) ^ 6 / 720 + (314159 / 200000) ^ 8 / 40320
      - (314159 / 200000) ^ 10 / 3628800 + (314159 / 200000) ^ 12 / 479001600
      - (314159 / 200000) ^ 14 / 87178291200"
  by (simp add: power_divide)

lemma cos_angle_cap_pos: "0 < cos (3.14159 / 2 :: real)"
proof -
  have "(3.14159 / 2 :: real) = 314159 / 200000" by simp
  moreover have "fact 14 = (87178291200 :: real)" by (simp add: fact_numeral)
  ultimately show ?thesis
    using cos_taylor_lower [of "314159 / 200000"] taylor_value_pos
    unfolding cos_taylor_14 by simp
qed

lemma angle_cap_below_half_pi: "(3.14159 / 2 :: real) < pi / 2"
proof (rule ccontr)
  assume "\<not> (3.14159 / 2 :: real) < pi / 2"
  then have "pi / 2 \<le> (3.14159 / 2 :: real)" by simp
  moreover have "(3.14159 / 2 :: real) \<le> pi" using pi_ge_two by simp
  moreover have "(0::real) \<le> pi / 2" by simp
  ultimately have "cos (3.14159 / 2 :: real) \<le> cos (pi / 2)"
    by (intro cos_monotone_0_pi_le) 
  then show False using cos_angle_cap_pos by simp
qed

lemma next_angle_in_range:
  fixes angle u cap :: real
  assumes "0 \<le> angle" "angle < cap" "0 \<le> u" "u < 1"
  shows "0 \<le> angle + u * (cap - angle)" "angle + u * (cap - angle) < cap"
proof -
  have d: "0 < cap - angle" using assms(2) by simp
  then have "0 \<le> u * (cap - angle)" using assms(3) by simp
  then show "0 \<le> angle + u * (cap - angle)" using assms(1) by linarith
  have "u * (cap - angle) < 1 * (cap - angle)"
    using assms(4) d by (rule mult_strict_right_mono)
  then have "u * (cap - angle) < cap - angle" by simp
  then show "angle + u * (cap - angle) < cap" by linarith
qed

lemma cos_pos_in_range:
  fixes a :: real
  assumes "0 \<le> a" "a < 3.14159 / 2"
  shows "0 < cos a"
proof -
  have "a < pi / 2" using assms(2) angle_cap_below_half_pi by linarith
  moreover have "- (pi / 2) < a" using assms(1) pi_gt_zero by linarith
  ultimately show ?thesis by (rule cos_gt_zero_pi [rotated])
qed

lemma row_heights_length: "length (row_heights rnd radius rows i angle curr_y) = rows"
  by (induction rows arbitrary: i angle curr_y) (simp_all add: Let_def)

lemma row_heights_above:
  assumes "0 < radius" "\<forall>k. 0 \<le> rnd k \<and> rnd k < 1" "0 \<le> angle" "angle < 3.14159 / 2"
  shows "\<forall>y\<in>set (row_heights rnd radius rows i angle curr_y). curr_y \<le> y"
  using assms(3,4)
proof (induction rows arbitrary: i angle curr_y)
  case 0
  then show ?case by simp
next
  case (Suc rows)
  let ?a = "angle + rnd i * (3.14159 / 2 - angle)"
  have a: "0 \<le> ?a" "?a < 3.14159 / 2"
    using next_angle_in_range [OF Suc.prems] assms(2) by simp_all
  have "0 < 2 * real_of_int radius * cos ?a"
    using cos_pos_in_range [OF a] assms(1) by simp
  then have "\<forall>y\<in>set (row_heights rnd radius rows (Suc i) ?a
                   (curr_y + 2 * real_of_int radius * cos ?a)). curr_y \<le> y"
    using Suc.IH [OF a, of "Suc i" "curr_y + 2 * real_of_int radius * cos ?a"] by fastforce
  then show ?case by (simp add: Let_def)
qed

lemma row_heights_distinct:
  assumes "0 < radius" "\<forall>k. 0 \<le> rnd k \<and> rnd k < 1" "0 \<le> angle" "angle < 3.14159 / 2"
  shows "distinct (row_heights rnd radius rows i angle curr_y)"
  using assms(3,4)
proof (induction rows arbitrary: i angle curr_y)
  case 0
  then show ?case by simp
next
  case (Suc rows)
  let ?a = "angle + rnd i * (3.14159 / 2 - angle)"
  let ?y = "curr_y + 2 * real_of_int radius * cos ?a"
  have a: "0 \<le> ?a" "?a < 3.14159 / 2"
    using next_angle_in_range [OF Suc.prems] assms(2) by simp_all
  have up: "curr_y < ?y"
    using cos_pos_in_range [OF a] assms(1) by simp
  have "\<forall>y\<in>set (row_heights rnd radius rows (Suc i) ?a ?y). ?y \<le> y"
    using row_heights_above [OF assms(1,2) a] .
  then have "curr_y \<notin> set (row_heights rnd radius rows (Suc i) ?a ?y)"
    using up by fastforce
  then show ?case using Suc.IH [OF a] by (simp add: Let_def)
qed

lemma stack_row_heights:
  "map pos_y (stack_row num_stacks x_per_stack arena_size radius curr_x curr_y)
     = replicate (nat num_stacks) curr_y"
  by (simp add: stack_row_def Let_def map_replicate_const comp_def)

lemma angled_rows_heights:
  "map pos_y (angled_rows rnd num_stacks x_per_stack arena_size radius rows i angle curr_x curr_y)
     = concat (map (replicate (nat num_stacks)) (row_heights rnd radius rows i angle curr_y))"
  by (induction rows arbitrary: i angle curr_x curr_y) (simp_all add: Let_def stack_row_heights)

lemma count_in_replicated_rows:
  "distinct ys \<Longrightarrow> v \<in> set ys \<Longrightarrow>
     length (filter (\<lambda>y. y = v) (concat (map (replicate n) ys))) = n"
proof (induction ys)
  case Nil
  then show ?case by simp
next
  case (Cons y ys)
  show ?case
  proof (cases "y = v")
    case True
    with Cons.prems have "v \<notin> set ys" by simp
    then have "filter (\<lambda>y. y = v) (concat (map (replicate n) ys)) = []"
      by (auto simp: filter_empty_conv)
    with True show ?thesis by simp
  next
    case False
    with Cons show ?thesis by simp
  qed
qed

lemma count_points_at_height:
  "length (filter (\<lambda>p. pos_y p = v) pts) = length (filter (\<lambda>y. y = v) (map pos_y pts))"
  by (induction pts) simp_all

lemma length_replicated_rows: "length (concat (map (replicate n) ys)) = n * length ys"
  by (induction ys) simp_all

lemma set_replicated_rows: "0 < n \<Longrightarrow> set (concat (map (replicate n) ys)) = set ys"
  by (induction ys) auto

text \<open>
  C7. With \<^verbatim>\<open>num_points = 20\<close>, \<^verbatim>\<open>radius = 100\<close>, \<^verbatim>\<open>arena_size = 800\<close> the angled-stack
  generator computes 5 stacks of 4 points and, for every drawn lane width and every
  sequence of draws of \<^verbatim>\<open>random.random()\<close> (values in \<open>[0, 1)\<close>), returns 20 points whose
  heights are 4 distinct values, each shared by exactly 5 points.
\<close>

theorem angled_init_scenario:
  assumes "\<forall>k. 0 \<le> rnd k \<and> rnd k < 1"
  shows "angled_num_stacks 800 100 = 5 \<and> angled_num_per_stack 20 5 = 4
     \<and> (\<exists>pts ys. angled_init x_draw rnd 20 800 100 = Inr pts
          \<and> length pts = 20 \<and> length ys = 4 \<and> distinct ys
          \<and> (\<forall>v\<in>set ys. length (filter (\<lambda>p. pos_y p = v) pts) = 5)
          \<and> (\<forall>p\<in>set pts. pos_y p \<in> set ys))"
proof -
  let ?pts = "angled_rows rnd 5 x_draw 800 100 4 0 0 0 100"
  let ?ys = "row_heights rnd 100 4 0 0 100"
  have stacks: "angled_num_stacks 800 100 = 5" and per: "angled_num_per_stack 20 5 = 4"
    by (simp_all add: angled_num_stacks_def angled_num_per_stack_def)
  have init: "angled_init x_draw rnd 20 800 100 = Inr ?pts"
    by (simp add: angled_init_def stacks per Let_def)
  have heights: "map pos_y ?pts = concat (map (replicate 5) ?ys)"
    using angled_rows_heights [of rnd 5 x_draw 800 100 4 0 0 0 100] by simp
  have len_ys: "length ?ys = 4" by (rule row_heights_length)
  have "length (map pos_y ?pts) = 5 * length ?ys"
    unfolding heights by (rule length_replicated_rows)
  then have len: "length ?pts = 20" using len_ys by simp
  have dist: "distinct ?ys"
    using row_heights_distinct [of 100 rnd 0 4 0 100] assms by simp
  have count: "\<forall>v\<in>set ?ys. length (filter (\<lambda>p. pos_y p = v) ?pts) = 5"
  proof
    fix v assume "v \<in> set ?ys"
    with dist show "length (filter (\<lambda>p. pos_y p = v) ?pts) = 5"
      unfolding count_points_at_height heights by (rule count_in_replicated_rows)
  qed
  have "set (map pos_y ?pts) = set ?ys"
    unfolding heights by (rule set_replicated_rows) simp
  then have cover: "\<forall>p\<in>set ?pts. pos_y p \<in> set ?ys" by auto
  from stacks per init len len_ys dist count cover show ?thesis by blast
qed

theorem angled_init_scenario_witness:
  "(\<forall>k. (0::real) \<le> (\<lambda>k. 1 / 2) k \<and> (\<lambda>k. 1 / 2 :: real) k < 1)
   \<and> (\<exists>pts ys. angled_init 300 (\<lambda>k. 1 / 2) 20 800 100 = Inr pts
          \<and> length pts = 20 \<and> length ys = 4 \<and> distinct ys
          \<and> (\<forall>v\<in>set ys. length (filter (\<lambda>p. pos_y p = v) pts) = 5)
          \<and> (\<forall>p\<in>set pts. pos_y p \<in> set ys))"
proof -
  have h: "\<forall>k. (0::real) \<le> (\<lambda>k. 1 / 2) k \<and> (\<lambda>k. 1 / 2 :: real) k < 1" by simp
  from angled_init_scenario [OF h, of 300] h show ?thesis by blast
qed

end
